theory Spec2Isabelle
  imports Main "HOL-Library.Sublist" "HOL-Library.Char_ord" "HOL-Library.List_Lexorder"
begin

section \<open>Python values and library functions used by the extension\<close>

text \<open>
  The extension is Python code over strings, dictionaries and the objects that Sphinx's
  introspection hands to it. Strings are \<open>string\<close>; every exception the modelled code can
  raise is a value of \<open>error\<close>, and a computation that may raise returns \<open>error + 'a\<close>.
\<close>

datatype error = AssertionError string | TypeError | KeyError

definition nl :: string where
  "nl = [CHR 0x0A]"

text \<open>\<^verbatim>\<open>sep.join(xs)\<close>\<close>

fun join :: "string \<Rightarrow> string list \<Rightarrow> string" where
  "join sep [] = []"
| "join sep [x] = x"
| "join sep (x # y # ys) = x @ sep @ join sep (y # ys)"

text \<open>\<^verbatim>\<open>qualifiedName.split('.')[-1]\<close>: the text after the last dot (all of it when
  there is none).\<close>

definition last_component :: "string \<Rightarrow> string" where
  "last_component s = rev (takeWhile (\<lambda>c. c \<noteq> CHR ''.'') (rev s))"

text \<open>
  \<^verbatim>\<open>sphinx.util.rst.escape\<close> (Sphinx 2.2, the version the extension was written against):
  a backslash before every character matching \<^verbatim>\<open>[!-\-/:-@\[-`{-~]\<close>, then a backslash before
  a dot that starts the text.
\<close>

definition is_rst_symbol :: "char \<Rightarrow> bool" where
  "is_rst_symbol c =
     (let n = (of_char c :: nat) in
        (33 \<le> n \<and> n \<le> 45) \<or> n = 47 \<or> (58 \<le> n \<and> n \<le> 64) \<or>
        (91 \<le> n \<and> n \<le> 96) \<or> (123 \<le> n \<and> n \<le> 126))"

definition rst_escape :: "string \<Rightarrow> string" where
  "rst_escape text0 =
     (let text1 = concat (map (\<lambda>c. if is_rst_symbol c then [CHR 0x5C, c] else [c]) text0)
      in case text1 of
           [] \<Rightarrow> []
         | c # cs \<Rightarrow> if c = CHR ''.'' then CHR 0x5C # c # cs else c # cs)"

text \<open>
  The objects found in a module, as far as \<^verbatim>\<open>inspect\<close> and \<^verbatim>\<open>isinstance\<close> tell them
  apart. \<open>ClassObj b\<close> is a class object, \<open>b\<close> saying whether the class derives from
  \<^verbatim>\<open>BaseException\<close>; \<open>InstanceObj b\<close> is any object that is not a class, a module or a
  Python function, \<open>b\<close> saying whether it is an instance of \<^verbatim>\<open>BaseException\<close>.
\<close>

datatype pyobj = ClassObj bool | ModuleObj | FunctionObj | InstanceObj bool

fun inspect_isclass :: "pyobj \<Rightarrow> bool" where
  "inspect_isclass (ClassObj b) = True"
| "inspect_isclass m = False"

fun inspect_ismodule :: "pyobj \<Rightarrow> bool" where
  "inspect_ismodule ModuleObj = True"
| "inspect_ismodule m = False"

fun inspect_isfunction :: "pyobj \<Rightarrow> bool" where
  "inspect_isfunction FunctionObj = True"
| "inspect_isfunction m = False"

text \<open>
  \<^verbatim>\<open>isinstance(m, BaseException)\<close> asks whether the object \<open>m\<close> itself is an exception
  instance. A class object is an instance of its metaclass, never of \<^verbatim>\<open>BaseException\<close>
  (\<^verbatim>\<open>isinstance(ValueError, BaseException)\<close> is \<^verbatim>\<open>False\<close>); that a class derives from
  \<^verbatim>\<open>BaseException\<close> is what \<^verbatim>\<open>issubclass\<close> tests.
\<close>

fun isinstance_BaseException :: "pyobj \<Rightarrow> bool" where
  "isinstance_BaseException (InstanceObj b) = b"
| "isinstance_BaseException m = False"

fun issubclass_BaseException :: "pyobj \<Rightarrow> bool" where
  "issubclass_BaseException (ClassObj b) = b"
| "issubclass_BaseException m = False"

text \<open>The values an autodoc option can carry.\<close>

datatype pyval = PyFalse | PyTrue | PyNone | PyStr string | PyInt int

definition pybool :: "bool \<Rightarrow> pyval" where
  "pybool b = (if b then PyTrue else PyFalse)"

text \<open>\<^verbatim>\<open>s + v\<close> for a string \<open>s\<close>: concatenation when \<open>v\<close> is a string, \<^verbatim>\<open>TypeError\<close>
  otherwise.\<close>

fun str_add :: "string \<Rightarrow> pyval \<Rightarrow> error + string" where
  "str_add s (PyStr t) = Inr (s @ t)"
| "str_add s v = Inl TypeError"

text \<open>A dictionary of options, as the sequence its \<^verbatim>\<open>items()\<close> yields.\<close>

type_synonym options = "(string \<times> pyval) list"

text \<open>
  A regular expression of the configuration is represented by what \<^verbatim>\<open>re.match\<close>
  (for \<open>skip_module_regex\<close>) or \<^verbatim>\<open>re.search\<close> (for \<open>skip_on_docstring_regex\<close>) answers
  on a string; \<open>None\<close> stands for a pattern that is unset or empty, which Python treats
  as false.
\<close>

type_synonym regex = "string \<Rightarrow> bool"

text \<open>The default \<open>skip_module_regex\<close>, \<^verbatim>\<open>re.match('.+[.]_.*', s)\<close>: a dot followed by an
  underscore, after at least one character, none of the characters before it a newline.\<close>

fun dot_underscore_follows :: "string \<Rightarrow> bool" where
  "dot_underscore_follows (x # y # r) =
     ((x = CHR ''.'' \<and> y = CHR ''_'') \<or> (x \<noteq> CHR 0x0A \<and> dot_underscore_follows (y # r)))"
| "dot_underscore_follows s = False"

fun default_skip_module_regex :: regex where
  "default_skip_module_regex [] = False"
| "default_skip_module_regex (c # cs) = (c \<noteq> CHR 0x0A \<and> dot_underscore_follows cs)"

text \<open>The default \<open>skip_on_docstring_regex\<close>, \<^verbatim>\<open>re.search(':meta private:', s)\<close>.\<close>

definition default_skip_on_docstring_regex :: regex where
  "default_skip_on_docstring_regex s = sublist '':meta private:'' s"

section \<open>Modules, configuration and session state\<close>

text \<open>
  One entry of what \<^verbatim>\<open>documenter.filter_members\<close> yields for a module, with the
  attributes of the member that \<^verbatim>\<open>visit_module\<close> reads: \<open>mem_module\<close> is the member's
  \<^verbatim>\<open>__module__\<close> (\<open>None\<close> when it has none), \<open>mem_doc\<close> its \<^verbatim>\<open>__doc__\<close>, and \<open>mem_attr_doc\<close> the
  entry of \<^verbatim>\<open>attr_docs\<close> for it (\<open>None\<close> when there is none).
\<close>

record member =
  mem_name :: string
  mem_obj :: pyobj
  mem_isattr :: bool
  mem_module :: "string option"
  mem_doc :: "string option"
  mem_attr_doc :: "string list option"

text \<open>
  A module as the walk sees it: its \<^verbatim>\<open>__name__\<close> and \<^verbatim>\<open>__doc__\<close>, whether it has a
  \<^verbatim>\<open>__path__\<close> (a package), the submodules \<^verbatim>\<open>pkgutil.iter_modules\<close> lists and
  \<^verbatim>\<open>importlib\<close> imports (each under the name it was listed with), whether the Sphinx
  documenter parses and imports it, and the members \<^verbatim>\<open>filter_members\<close> yields in
  declaration order.
\<close>

datatype pymodule =
  PyModule (mod_name: string) (mod_doc: "string option") (is_package: bool)
    (submodules: "pymodule list") (documenter_ok: bool) (mod_members: "member list")

text \<open>
  The decision callback for autodoc options: a function of (what, fullname, obj,
  docstring, defaultOptions), or a dictionary keyed by full name. Python hands the
  callback the defaults dictionary itself, which the callback may edit in place before it
  returns a dictionary or \<^verbatim>\<open>None\<close>. A callback is therefore represented by two results:
  the content of the defaults dictionary when the call returns, and the value returned.
\<close>

type_synonym decider_fun =
  "string \<Rightarrow> string \<Rightarrow> pyobj \<Rightarrow> string option \<Rightarrow> options \<Rightarrow> options \<times> options option"

datatype decider =
  DeciderFun decider_fun
| DeciderDict "(string \<times> options option) list"

text \<open>
  The configuration after defaults have been filled in. \<open>imported_members\<close> is the
  truth value of \<^verbatim>\<open>autodoc_default_options.get('imported-members', False)\<close> of the host
  configuration. \<open>write_documented_items_output_file\<close> is a plain file name, joined to
  the generated directory.
\<close>

record config =
  modules :: "pymodule list"
  generated_source_dir :: string
  overwrite_generated_source_rsts :: bool
  skip_module_regex :: "regex option"
  skip_on_docstring_regex :: "regex option"
  module_title_decider :: "string \<Rightarrow> string"
  autodoc_options_decider :: decider
  write_documented_items_output_file :: "string option"
  imported_members :: bool

text \<open>
  The state a run works on: the files of the generated directory (name to content; the
  directory holds plain files only, each a UTF-8 text, on a POSIX system), the two sets
  the extension keeps, and a log of every file write in order, kept to tell a rewrite with
  equal content from no write.
\<close>

record session =
  files :: "string \<rightharpoonup> string"
  rst_files_generated :: "string set"
  documented_items :: "string set"
  write_log :: "(string \<times> string) list"

definition member_underline :: string where
  "member_underline = ''=''"

definition module_underline :: string where
  "module_underline = ''~''"

definition doc_module_member_types :: "string list" where
  "doc_module_member_types = [''module'', ''data'', ''class'', ''exception'', ''function'']"

definition autosummary_member_types :: "string list" where
  "autosummary_member_types = [''module'']"

section \<open>Rendering one member\<close>

text \<open>The loop over \<^verbatim>\<open>autodocoptions.items()\<close> of \<^verbatim>\<open>get_module_member_rst\<close>, with the text
  built so far.\<close>

fun render_options :: "options \<Rightarrow> string \<Rightarrow> error + string" where
  "render_options [] result = Inr result"
| "render_options ((k, v) # kvs) result =
     (if v = PyFalse then render_options kvs result
      else if \<not> (v = PyNone \<or> v = PyTrue) then
        (case str_add (result @ ''   :'' @ k @ '':'' @ '' '') v of
           Inl e \<Rightarrow> Inl e
         | Inr r \<Rightarrow> render_options kvs (r @ nl))
      else render_options kvs (result @ ''   :'' @ k @ '':'' @ nl))"

text \<open>Calling the configured decider on the defaults dictionary: the dictionary after the
  call, and the value returned. \<^verbatim>\<open>generate\<close> replaces a dictionary by a function before
  the walk; calling a dictionary is a \<^verbatim>\<open>TypeError\<close>.\<close>

fun call_decider ::
  "decider \<Rightarrow> string \<Rightarrow> string \<Rightarrow> pyobj \<Rightarrow> string option \<Rightarrow> options \<Rightarrow>
   error + options \<times> options option"
where
  "call_decider (DeciderFun f) what fullname obj docstring defaults =
     Inr (f what fullname obj docstring defaults)"
| "call_decider (DeciderDict d) what fullname obj docstring defaults = Inl TypeError"

definition default_options :: "string \<Rightarrow> options" where
  "default_options memberType =
     [(''members'', pybool (memberType \<in> {''class'', ''exception''}))]"

definition member_header :: "string \<Rightarrow> string \<Rightarrow> string" where
  "member_header memberType qualifiedName =
     (let name = last_component qualifiedName in
        nl @ rst_escape name @ nl @
        concat (replicate (length (rst_escape name)) member_underline) @ nl @
        nl @
        ''.. auto'' @ memberType @ '':: '' @ name @ nl)"

text \<open>\<^verbatim>\<open>get_module_member_rst\<close>. When the callback returns \<^verbatim>\<open>None\<close> the options are
  the defaults dictionary, with whatever the callback did to it.\<close>

definition get_module_member_rst ::
  "config \<Rightarrow> string \<Rightarrow> string \<Rightarrow> pyobj \<Rightarrow> string option \<Rightarrow> error + string" where
  "get_module_member_rst cfg memberType qualifiedName obj docstring =
     (let result = member_header memberType qualifiedName
      in case call_decider (autodoc_options_decider cfg) memberType qualifiedName obj
                docstring (default_options memberType) of
           Inl e \<Rightarrow> Inl e
         | Inr (defaults, r) \<Rightarrow>
             (let autodocoptions = (case r of None \<Rightarrow> defaults | Some d \<Rightarrow> d)
              in render_options autodocoptions result))"

section \<open>Rendering a module\<close>

text \<open>A documented member: qualified name, object and docstring.\<close>

type_synonym entry = "string \<times> pyobj \<times> string option"

text \<open>\<^verbatim>\<open>membersByType\<close>: a dictionary from member type to the members of that type, as the
  sequence of its items in insertion order.\<close>

type_synonym members_by_type = "(string \<times> entry list) list"

fun member_rsts :: "config \<Rightarrow> string \<Rightarrow> entry list \<Rightarrow> error + string list" where
  "member_rsts cfg memberType [] = Inr []"
| "member_rsts cfg memberType ((qname, m, docstring) # ms) =
     (case get_module_member_rst cfg memberType qname m docstring of
        Inl e \<Rightarrow> Inl e
      | Inr r \<Rightarrow>
          (case member_rsts cfg memberType ms of
             Inl e \<Rightarrow> Inl e
           | Inr rs \<Rightarrow> Inr (r # rs)))"

definition item_label :: "string \<Rightarrow> string \<Rightarrow> string" where
  "item_label qname memberType = qname @ '' ('' @ memberType @ '')''"

definition generate_member_type_rst ::
  "config \<Rightarrow> pymodule \<Rightarrow> string \<Rightarrow> entry list \<Rightarrow> session \<Rightarrow> (error + string) \<times> session"
where
  "generate_member_type_rst cfg module memberType mems st =
     (let st1 = st\<lparr>documented_items :=
                   documented_items st \<union>
                   set (map (\<lambda>(qname, m, d). item_label qname memberType) mems)\<rparr>
      in if memberType \<in> set autosummary_member_types then
           (Inr (join nl ([''.. autosummary::'', ''  :toctree: ./'', []] @
                          map (\<lambda>(qname, m, d). ''  '' @ qname) mems)), st1)
         else
           (case member_rsts cfg memberType mems of
              Inl e \<Rightarrow> (Inl e, st1)
            | Inr rs \<Rightarrow> (Inr (join nl rs), st1)))"

text \<open>The loop over \<^verbatim>\<open>membersByType.items()\<close> of \<^verbatim>\<open>generate_module_rst\<close>, with the
  output built so far.\<close>

fun module_sections ::
  "config \<Rightarrow> pymodule \<Rightarrow> members_by_type \<Rightarrow> string \<Rightarrow> session \<Rightarrow> (error + string) \<times> session"
where
  "module_sections cfg module [] output st = (Inr output, st)"
| "module_sections cfg module ((memberType, mems) # rest) output st =
     (if mems = [] then module_sections cfg module rest output st
      else
        (case generate_member_type_rst cfg module memberType mems st of
           (Inl e, st1) \<Rightarrow> (Inl e, st1)
         | (Inr extra, st1) \<Rightarrow>
             if extra \<noteq> [] then module_sections cfg module rest (output @ nl @ extra) st1
             else module_sections cfg module rest output st1))"

definition module_header :: "config \<Rightarrow> string \<Rightarrow> string" where
  "module_header cfg module_fullname =
     (let title = module_title_decider cfg module_fullname in
        nl @ rst_escape title @ nl @
        concat (replicate (length (rst_escape title)) module_underline) @ nl @
        nl @
        ''.. automodule:: '' @ module_fullname @ nl @
        nl @
        ''.. currentmodule:: '' @ module_fullname @ nl @
        nl)"

text \<open>\<^verbatim>\<open>generate_module_rst\<close>; the result \<open>None\<close> is Python's \<^verbatim>\<open>None\<close>.\<close>

definition generate_module_rst ::
  "config \<Rightarrow> pymodule \<Rightarrow> members_by_type \<Rightarrow> session \<Rightarrow> (error + string option) \<times> session"
where
  "generate_module_rst cfg module membersByType st =
     (if membersByType = [] then (Inr None, st)
      else
        (let module_fullname = mod_name module;
             st1 = st\<lparr>documented_items :=
                       insert (item_label module_fullname ''module'') (documented_items st)\<rparr>;
             output = module_header cfg module_fullname
         in case module_sections cfg module membersByType output st1 of
              (Inl e, st2) \<Rightarrow> (Inl e, st2)
            | (Inr out, st2) \<Rightarrow> (Inr (Some out), st2)))"

section \<open>Visiting a module\<close>

text \<open>The skip decision at the head of \<^verbatim>\<open>visit_module\<close>: the name rule, then the
  docstring rule, which can only turn the decision to true.\<close>

definition module_skipped :: "config \<Rightarrow> pymodule \<Rightarrow> bool" where
  "module_skipped cfg md =
     (let skipped = (case skip_module_regex cfg of
                       None \<Rightarrow> False
                     | Some r \<Rightarrow> r (mod_name md))
      in case skip_on_docstring_regex cfg of
           None \<Rightarrow> skipped
         | Some r \<Rightarrow>
             (case mod_doc md of
                None \<Rightarrow> skipped
              | Some d \<Rightarrow> if d \<noteq> [] \<and> r d then True else skipped))"

text \<open>The \<^verbatim>\<open>if\<close>/\<^verbatim>\<open>elif\<close> chain that gives a member its type; \<open>None\<close> where the loop
  continues with the next member.\<close>

definition member_type :: "bool \<Rightarrow> pyobj \<Rightarrow> string option" where
  "member_type is_attr m =
     (if is_attr then Some ''data''
      else if inspect_isclass m then
        (if isinstance_BaseException m then Some ''exception'' else Some ''class'')
      else if inspect_ismodule m then None
      else if inspect_isfunction m then Some ''function''
      else None)"

definition member_docstring :: "member \<Rightarrow> string option" where
  "member_docstring x =
     (case mem_attr_doc x of
        Some ls \<Rightarrow> Some (join nl ls)
      | None \<Rightarrow> mem_doc x)"

definition docstring_skipped :: "config \<Rightarrow> string option \<Rightarrow> bool" where
  "docstring_skipped cfg docstring =
     (case skip_on_docstring_regex cfg of
        None \<Rightarrow> False
      | Some r \<Rightarrow>
          (case docstring of
             None \<Rightarrow> False
           | Some d \<Rightarrow> d \<noteq> [] \<and> r d))"

text \<open>\<^verbatim>\<open>membersByType[mtype].append(x)\<close>.\<close>

definition dict_append :: "members_by_type \<Rightarrow> string \<Rightarrow> entry \<Rightarrow> error + members_by_type" where
  "dict_append membersByType mtype x =
     (if mtype \<in> set (map fst membersByType) then
        Inr (map (\<lambda>(k, xs). if k = mtype then (k, xs @ [x]) else (k, xs)) membersByType)
      else Inl KeyError)"

text \<open>Whether the member is ruled out for being defined in another module.\<close>

definition defined_elsewhere :: "config \<Rightarrow> string \<Rightarrow> member \<Rightarrow> bool" where
  "defined_elsewhere cfg modulename x =
     (\<not> mem_isattr x \<and> \<not> imported_members cfg \<and>
      (case mem_module x of None \<Rightarrow> modulename | Some n \<Rightarrow> n) \<noteq> modulename)"

text \<open>The loop over \<^verbatim>\<open>documenter.filter_members(...)\<close>.\<close>

fun collect_members ::
  "config \<Rightarrow> string \<Rightarrow> member list \<Rightarrow> members_by_type \<Rightarrow> error + members_by_type" where
  "collect_members cfg modulename [] membersByType = Inr membersByType"
| "collect_members cfg modulename (x # xs) membersByType =
     (if defined_elsewhere cfg modulename x then
        collect_members cfg modulename xs membersByType
      else
        (case member_type (mem_isattr x) (mem_obj x) of
           None \<Rightarrow> collect_members cfg modulename xs membersByType
         | Some mtype \<Rightarrow>
             (let docstring = member_docstring x in
                if docstring_skipped cfg docstring then
                  collect_members cfg modulename xs membersByType
                else
                  (case dict_append membersByType mtype
                          (modulename @ ''.'' @ mem_name x, mem_obj x, docstring) of
                     Inl e \<Rightarrow> Inl e
                   | Inr membersByType' \<Rightarrow>
                       collect_members cfg modulename xs membersByType'))))"

definition write_file :: "string \<Rightarrow> string \<Rightarrow> session \<Rightarrow> session" where
  "write_file f content st =
     st\<lparr>files := (files st)(f \<mapsto> content), write_log := write_log st @ [(f, content)]\<rparr>"

text \<open>
  Reading a file opened in text mode: Python's universal newlines turn every
  carriage return followed by a line feed, and every other carriage return, into a line
  feed. Writing in text mode on a POSIX system stores the text as it is.
\<close>

fun universal_newlines :: "string \<Rightarrow> string" where
  "universal_newlines [] = []"
| "universal_newlines [c] = (if c = CHR 0x0D then [CHR 0x0A] else [c])"
| "universal_newlines (c # d # r) =
     (if c = CHR 0x0D then
        (if d = CHR 0x0A then CHR 0x0A # universal_newlines r
         else CHR 0x0A # universal_newlines (d # r))
      else c # universal_newlines (d # r))"

text \<open>
  The end of \<^verbatim>\<open>visit_module\<close>, from the computation of \<^verbatim>\<open>rstfile\<close> on. A module name
  holds no slash, so the base name of \<^verbatim>\<open>rstfile\<close> is the module name followed by
  \<^verbatim>\<open>.rst\<close>, and that is the file's name in the generated directory. The existing
  file is compared with the rendered text as \<^verbatim>\<open>f.read()\<close> returns it.
\<close>

definition rst_basename :: "string \<Rightarrow> string" where
  "rst_basename modulename = modulename @ ''.rst''"

definition write_module_rst ::
  "config \<Rightarrow> string \<Rightarrow> string \<Rightarrow> session \<Rightarrow> (error + bool option) \<times> session" where
  "write_module_rst cfg modulename rst st =
     (let rstfile = rst_basename modulename;
          st1 = st\<lparr>rst_files_generated := insert rstfile (rst_files_generated st)\<rparr>
      in case files st1 rstfile of
           Some existing \<Rightarrow>
             if universal_newlines existing = rst then (Inr (Some True), st1)
             else if \<not> overwrite_generated_source_rsts cfg then (Inr (Some True), st1)
             else (Inr (Some True), write_file rstfile rst st1)
         | None \<Rightarrow> (Inr (Some True), write_file rstfile rst st1))"

definition initial_members_by_type :: members_by_type where
  "initial_members_by_type = map (\<lambda>t. (t, [])) doc_module_member_types"

text \<open>
  \<^verbatim>\<open>visit_module\<close> and its loop over the submodules of a package. The result is
  \<open>Some False\<close> for a skipped module, \<open>None\<close> where the source returns without a value,
  \<open>Some True\<close> otherwise. Calls into the host (import, analysis, member filtering) are
  taken to return; the failure modelled is the one the source raises itself.
\<close>

fun visit_module :: "config \<Rightarrow> pymodule \<Rightarrow> session \<Rightarrow> (error + bool option) \<times> session"
  and visit_submodules ::
    "config \<Rightarrow> pymodule list \<Rightarrow> members_by_type \<Rightarrow> session \<Rightarrow> (error + members_by_type) \<times> session"
where
  "visit_module cfg (PyModule modulename d pkg subs ok mems) st =
     (if module_skipped cfg (PyModule modulename d pkg subs ok mems) then (Inr (Some False), st)
      else
        (case (if pkg then visit_submodules cfg subs initial_members_by_type st
               else (Inr initial_members_by_type, st)) of
           (Inl e, st1) \<Rightarrow> (Inl e, st1)
         | (Inr membersByType, st1) \<Rightarrow>
             if \<not> ok then
               (Inl (AssertionError ''documenter failed to import module''), st1)
             else
               (case collect_members cfg modulename mems membersByType of
                  Inl e \<Rightarrow> (Inl e, st1)
                | Inr membersByType' \<Rightarrow>
                    (case generate_module_rst cfg (PyModule modulename d pkg subs ok mems)
                            membersByType' st1 of
                       (Inl e, st2) \<Rightarrow> (Inl e, st2)
                     | (Inr None, st2) \<Rightarrow> (Inr None, st2)
                     | (Inr (Some rst), st2) \<Rightarrow>
                         if rst = [] then (Inr None, st2)
                         else write_module_rst cfg modulename rst st2))))"
| "visit_submodules cfg [] membersByType st = (Inr membersByType, st)"
| "visit_submodules cfg (submodule # rest) membersByType st =
     (case visit_module cfg submodule st of
        (Inl e, st1) \<Rightarrow> (Inl e, st1)
      | (Inr r, st1) \<Rightarrow>
          if r \<noteq> Some True then visit_submodules cfg rest membersByType st1
          else if ''module'' \<in> set (map fst membersByType) then
            (case dict_append membersByType ''module''
                    (mod_name submodule, ModuleObj, mod_doc submodule) of
               Inl e \<Rightarrow> (Inl e, st1)
             | Inr membersByType' \<Rightarrow> visit_submodules cfg rest membersByType' st1)
          else visit_submodules cfg rest membersByType st1)"

section \<open>The driver\<close>

text \<open>\<^verbatim>\<open>os.path.normpath\<close> on POSIX.\<close>

fun split_on :: "char \<Rightarrow> string \<Rightarrow> string list" where
  "split_on sep [] = [[]]"
| "split_on sep (c # cs) =
     (if c = sep then [] # split_on sep cs
      else (case split_on sep cs of
              [] \<Rightarrow> [[c]]
            | w # ws \<Rightarrow> (c # w) # ws))"

fun norm_comps :: "nat \<Rightarrow> string list \<Rightarrow> string list \<Rightarrow> string list" where
  "norm_comps initial_slashes [] new_comps = new_comps"
| "norm_comps initial_slashes (part # parts) new_comps =
     (if part = [] \<or> part = ''.'' then norm_comps initial_slashes parts new_comps
      else if part \<noteq> ''..'' \<or> (initial_slashes = 0 \<and> new_comps = []) \<or>
              (new_comps \<noteq> [] \<and> last new_comps = ''..'') then
        norm_comps initial_slashes parts (new_comps @ [part])
      else if new_comps \<noteq> [] then norm_comps initial_slashes parts (butlast new_comps)
      else norm_comps initial_slashes parts new_comps)"

definition normpath :: "string \<Rightarrow> string" where
  "normpath path =
     (if path = [] then ''.''
      else
        (let initial_slashes =
               (if prefix ''/'' path then
                  (if prefix ''//'' path \<and> \<not> prefix ''///'' path then 2 else 1)
                else (0::nat));
             comps = norm_comps initial_slashes (split_on CHR ''/'' path) [];
             p = replicate initial_slashes CHR ''/'' @ join ''/'' comps
         in if p = [] then ''.'' else p))"

text \<open>The loop over the configured root modules.\<close>

fun visit_modules :: "config \<Rightarrow> pymodule list \<Rightarrow> session \<Rightarrow> (error + unit) \<times> session" where
  "visit_modules cfg [] st = (Inr (), st)"
| "visit_modules cfg (md # mds) st =
     (case visit_module cfg md st of
        (Inl e, st1) \<Rightarrow> (Inl e, st1)
      | (Inr r, st1) \<Rightarrow> visit_modules cfg mds st1)"

text \<open>A dictionary given as \<open>autodoc_options_decider\<close> becomes the function that looks
  the full name up and falls back to the defaults.\<close>

definition decider_of_dict :: "(string \<times> options option) list \<Rightarrow> decider_fun" where
  "decider_of_dict optionsdict what fullname obj docstring defaultOptions =
     (defaultOptions,
      case map_of optionsdict fullname of
        Some v \<Rightarrow> v
      | None \<Rightarrow> Some defaultOptions)"

definition normalize_decider :: "config \<Rightarrow> config" where
  "normalize_decider cfg =
     (case autodoc_options_decider cfg of
        DeciderDict optionsdict \<Rightarrow>
          cfg\<lparr>autodoc_options_decider := DeciderFun (decider_of_dict optionsdict)\<rparr>
      | DeciderFun f \<Rightarrow> cfg)"

text \<open>The sorted listing written to \<open>write_documented_items_output_file\<close>.\<close>

definition documented_items_listing :: "string set \<Rightarrow> string" where
  "documented_items_listing items = concat (map (\<lambda>m. m @ nl) (sorted_list_of_set items))"

text \<open>Removing every file of the generated directory that this run did not register.\<close>

definition remove_stale :: "session \<Rightarrow> session" where
  "remove_stale st = st\<lparr>files := files st |` rst_files_generated st\<rparr>"

text \<open>\<^verbatim>\<open>generate\<close>, on a configuration whose missing keys have been given their
  defaults, with Python's assertions enabled. The generated directory exists, so
  \<^verbatim>\<open>os.makedirs\<close> changes nothing.\<close>

definition generate :: "config \<Rightarrow> session \<Rightarrow> (error + unit) \<times> session" where
  "generate cfg0 st =
     (let cfg = normalize_decider cfg0;
          generated_dir = generated_source_dir cfg
      in if normpath generated_dir = normpath ''.'' then
           (Inl (AssertionError ''Cannot use current path as generated_source_dir''), st)
         else if modules cfg = [] then (Inl (AssertionError ''no modules''), st)
         else
           (let st1 = st\<lparr>rst_files_generated := {}, documented_items := {}\<rparr> in
              case visit_modules cfg (modules cfg) st1 of
                (Inl e, st2) \<Rightarrow> (Inl e, st2)
              | (Inr u, st2) \<Rightarrow>
                  (let st3 = remove_stale st2 in
                     case write_documented_items_output_file cfg of
                       None \<Rightarrow> (Inr (), st3)
                     | Some f \<Rightarrow>
                         if f = [] then (Inr (), st3)
                         else (Inr (),
                               write_file f (documented_items_listing (documented_items st3))
                                 st3))))"

section \<open>Defaults and example inputs\<close>

text \<open>The defaults of the \<^verbatim>\<open>Config\<close> class, for a given list of root modules.\<close>

definition default_config :: "pymodule list \<Rightarrow> config" where
  "default_config mods =
     \<lparr>modules = mods,
      generated_source_dir = ''autodocgen/'',
      overwrite_generated_source_rsts = True,
      skip_module_regex = Some default_skip_module_regex,
      skip_on_docstring_regex = Some default_skip_on_docstring_regex,
      module_title_decider = (\<lambda>modulename. modulename),
      autodoc_options_decider =
        DeciderFun (\<lambda>what fullname obj docstring defaultOptions.
                      (defaultOptions, Some defaultOptions)),
      write_documented_items_output_file = None,
      imported_members = False\<rparr>"

text \<open>An empty generated directory, before any run.\<close>

definition empty_session :: session where
  "empty_session =
     \<lparr>files = Map.empty, rst_files_generated = {}, documented_items = {}, write_log = []\<rparr>"

text \<open>A package \<^verbatim>\<open>pkg\<close> with a public submodule \<^verbatim>\<open>pkg.sub\<close> holding one function, and
  a private subpackage \<^verbatim>\<open>pkg._impl\<close>; a module the documenter cannot import; a module
  with no members at all.\<close>

definition example_function :: member where
  "example_function =
     \<lparr>mem_name = ''f'', mem_obj = FunctionObj, mem_isattr = False,
      mem_module = Some ''pkg.sub'', mem_doc = Some ''Does f.'', mem_attr_doc = None\<rparr>"

definition example_leaf :: pymodule where
  "example_leaf = PyModule ''pkg.sub'' None False [] True [example_function]"

definition example_private :: pymodule where
  "example_private = PyModule ''pkg._impl'' None True [example_leaf] True []"

definition example_package :: pymodule where
  "example_package = PyModule ''pkg'' None True [example_leaf, example_private] True []"


definition example_memberless :: pymodule where
  "example_memberless = PyModule ''m'' None False [] True []"

definition example_exception_class :: member where
  "example_exception_class =
     \<lparr>mem_name = ''MyError'', mem_obj = ClassObj True, mem_isattr = False,
      mem_module = Some ''m'', mem_doc = None, mem_attr_doc = None\<rparr>"

definition example_options :: options where
  "example_options =
     [(''members'', PyTrue), (''undoc-members'', PyNone),
      (''member-order'', PyStr ''bysource''), (''private-members'', PyFalse)]"

definition example_decider_config :: "options option \<Rightarrow> config" where
  "example_decider_config answer =
     (default_config [])\<lparr>autodoc_options_decider :=
        DeciderFun (\<lambda>what fullname obj docstring defaultOptions.
                      (defaultOptions, answer))\<rparr>"

text \<open>A generated directory that already holds \<^verbatim>\<open>m.rst\<close>, edited by hand.\<close>

definition example_edited_session :: session where
  "example_edited_session = empty_session\<lparr>files := [''m.rst'' \<mapsto> ''edited by hand'']\<rparr>"

section \<open>The options of a rendered member\<close>

text \<open>
  The line an option contributes to the directive block, by the value it carries: nothing
  for \<^verbatim>\<open>False\<close>, the bare flag for \<^verbatim>\<open>True\<close> and for \<^verbatim>\<open>None\<close>, the flag followed by the
  text for a string. No line is stated for other values.
\<close>

fun option_line :: "string \<Rightarrow> pyval \<Rightarrow> string option" where
  "option_line k PyFalse = Some []"
| "option_line k PyTrue = Some (''   :'' @ k @ '':'' @ nl)"
| "option_line k PyNone = Some (''   :'' @ k @ '':'' @ nl)"
| "option_line k (PyStr s) = Some (''   :'' @ k @ '': '' @ s @ nl)"
| "option_line k (PyInt i) = None"

text \<open>A line of the form \<^verbatim>\<open>:name: value\<close>: the flag, a space, some text, the end of line.\<close>

definition flag_with_value :: "string \<Rightarrow> string \<Rightarrow> bool" where
  "flag_with_value k line = (prefix (''   :'' @ k @ '': '') line \<and> suffix nl line)"

lemma render_options_lines:
  "those (map (\<lambda>(k, v). option_line k v) opts) = Some lines \<Longrightarrow>
   render_options opts result = Inr (result @ concat lines)"
proof (induction opts arbitrary: result lines)
  case Nil
  then show ?case by simp
next
  case (Cons kv opts)
  obtain k v where kv: "kv = (k, v)" by (cases kv)
  from Cons.prems kv obtain l ls where
    l: "option_line k v = Some l" and ls: "those (map (\<lambda>(k, v). option_line k v) opts) = Some ls"
    and lines: "lines = l # ls"
    by (auto split: option.splits)
  show ?case
    using l Cons.IH[OF ls] by (cases v) (simp_all add: kv lines)
qed

text \<open>
  C7, as amended. The options of a rendered member are what the configured decision
  function answers on the defaults (the defaults dictionary as the call left it when it
  answers \<^verbatim>\<open>None\<close>); the defaults are \<^verbatim>\<open>{members: True}\<close> for the class and exception
  kinds and \<^verbatim>\<open>{members: False}\<close> otherwise. The directive block is the member's heading
  followed by one line per option: none for a value \<^verbatim>\<open>False\<close>, the bare flag
  \<^verbatim>\<open>:name:\<close> for a value \<^verbatim>\<open>True\<close> or \<^verbatim>\<open>None\<close>, and \<^verbatim>\<open>:name: value\<close> for a string value.
\<close>

theorem member_options_rendering:
  assumes "autodoc_options_decider cfg = DeciderFun f"
    and "f what qn obj docstring (default_options what) = (defaults, answer)"
    and "opts = (case answer of None \<Rightarrow> defaults | Some d \<Rightarrow> d)"
    and "those (map (\<lambda>(k, v). option_line k v) opts) = Some lines"
  shows "get_module_member_rst cfg what qn obj docstring =
           Inr (member_header what qn @ concat lines) \<and>
         default_options what =
           [(''members'', if what = ''class'' \<or> what = ''exception'' then PyTrue else PyFalse)]"
proof -
  have "get_module_member_rst cfg what qn obj docstring =
          render_options opts (member_header what qn)"
    by (simp add: get_module_member_rst_def assms(1) assms(2) assms(3) Let_def)
  moreover have "render_options opts (member_header what qn) =
          Inr (member_header what qn @ concat lines)"
    using assms(4) by (rule render_options_lines)
  moreover have "default_options what =
           [(''members'', if what = ''class'' \<or> what = ''exception'' then PyTrue else PyFalse)]"
    by (simp add: default_options_def pybool_def)
  ultimately show ?thesis by simp
qed

theorem member_options_rendering_witness:
  "autodoc_options_decider (example_decider_config (Some example_options)) =
     DeciderFun (\<lambda>what fullname obj docstring defaultOptions.
                   (defaultOptions, Some example_options)) \<and>
   those (map (\<lambda>(k, v). option_line k v) example_options) =
     Some [''   :members:'' @ nl, ''   :undoc-members:'' @ nl,
           ''   :member-order: bysource'' @ nl, []] \<and>
   get_module_member_rst (example_decider_config (Some example_options))
       ''class'' ''pkg.sub.Widget'' (ClassObj False) None =
     Inr (member_header ''class'' ''pkg.sub.Widget'' @
          concat [''   :members:'' @ nl, ''   :undoc-members:'' @ nl,
                  ''   :member-order: bysource'' @ nl, []]) \<and>
   default_options ''class'' = [(''members'', PyTrue)]"
proof -
  have h1: "autodoc_options_decider (example_decider_config (Some example_options)) =
     DeciderFun (\<lambda>what fullname obj docstring defaultOptions.
                   (defaultOptions, Some example_options))"
    by (simp add: example_decider_config_def)
  have h2: "(\<lambda>what fullname obj docstring defaultOptions.
               (defaultOptions, Some example_options))
             ''class'' ''pkg.sub.Widget'' (ClassObj False) None (default_options ''class'') =
            (default_options ''class'', Some example_options)"
    by simp
  have h3: "example_options =
     (case Some example_options of None \<Rightarrow> default_options ''class'' | Some d \<Rightarrow> d)"
    by simp
  have h4: "those (map (\<lambda>(k, v). option_line k v) example_options) =
     Some [''   :members:'' @ nl, ''   :undoc-members:'' @ nl,
           ''   :member-order: bysource'' @ nl, []]"
    by (simp add: example_options_def)
  from member_options_rendering[OF h1 h2 h3 h4] h1 h4 show ?thesis by simp
qed

text \<open>
  C7 as stated fails: an option whose value is \<^verbatim>\<open>None\<close> is neither boolean false nor
  boolean true, and it renders as the bare flag, not as \<^verbatim>\<open>:name: value\<close>.
\<close>

theorem none_option_counterexample:
  "render_options [(''undoc-members'', PyNone)] [] = Inr (''   :undoc-members:'' @ nl) \<and>
   \<not> flag_with_value ''undoc-members'' (''   :undoc-members:'' @ nl)"
  by code_simp

text \<open>
  C10, as amended. When the decision function answers \<^verbatim>\<open>None\<close> for a member, the
  options rendered are those of the defaults dictionary as the call left it. When the call
  left the dictionary as it was, the member is rendered exactly as under the decision
  function that returns the defaults unchanged: the heading, followed by the bare flag
  \<^verbatim>\<open>:members:\<close> for the class and exception kinds and by nothing otherwise.
\<close>

theorem decider_none_gives_defaults:
  assumes "autodoc_options_decider cfg = DeciderFun f"
    and "f what qn obj docstring (default_options what) = (defaults, None)"
  shows "get_module_member_rst cfg what qn obj docstring =
           render_options defaults (member_header what qn) \<and>
         (defaults = default_options what \<longrightarrow>
            get_module_member_rst cfg what qn obj docstring =
              get_module_member_rst
                (cfg\<lparr>autodoc_options_decider :=
                       DeciderFun (\<lambda>w n ob ds defaultOptions.
                                     (defaultOptions, Some defaultOptions))\<rparr>)
                what qn obj docstring \<and>
            get_module_member_rst cfg what qn obj docstring =
              Inr (member_header what qn @
                   (if what = ''class'' \<or> what = ''exception''
                    then ''   :members:'' @ nl else [])))"
  using assms
  by (simp add: get_module_member_rst_def default_options_def pybool_def)

theorem decider_none_gives_defaults_witness:
  "autodoc_options_decider (example_decider_config None) =
     DeciderFun (\<lambda>what fullname obj docstring defaultOptions. (defaultOptions, None)) \<and>
   get_module_member_rst (example_decider_config None)
       ''exception'' ''pkg.sub.Oops'' (ClassObj True) None =
     render_options (default_options ''exception'') (member_header ''exception'' ''pkg.sub.Oops'') \<and>
   get_module_member_rst (example_decider_config None)
       ''exception'' ''pkg.sub.Oops'' (ClassObj True) None =
     get_module_member_rst
       ((example_decider_config None)\<lparr>autodoc_options_decider :=
           DeciderFun (\<lambda>w n ob ds defaultOptions. (defaultOptions, Some defaultOptions))\<rparr>)
       ''exception'' ''pkg.sub.Oops'' (ClassObj True) None \<and>
   get_module_member_rst (example_decider_config None)
       ''exception'' ''pkg.sub.Oops'' (ClassObj True) None =
     Inr (member_header ''exception'' ''pkg.sub.Oops'' @ ''   :members:'' @ nl) \<and>
   get_module_member_rst (example_decider_config None)
       ''function'' ''pkg.sub.f'' FunctionObj None =
     Inr (member_header ''function'' ''pkg.sub.f'')"
proof -
  have h1: "autodoc_options_decider (example_decider_config None) =
     DeciderFun (\<lambda>what fullname obj docstring defaultOptions. (defaultOptions, None))"
    by (simp add: example_decider_config_def)
  have h2: "(\<lambda>what fullname obj docstring defaultOptions. (defaultOptions, None))
              what qn obj docstring (default_options what) =
            (default_options what, (None :: options option))"
    for what qn obj and docstring :: "string option"
    by simp
  note i1 = decider_none_gives_defaults
              [OF h1 h2, of "''exception''" "''pkg.sub.Oops''" "ClassObj True" None]
  note i2 = decider_none_gives_defaults
              [OF h1 h2, of "''function''" "''pkg.sub.f''" FunctionObj None]
  have r: "get_module_member_rst (example_decider_config None)
       ''exception'' ''pkg.sub.Oops'' (ClassObj True) None =
     render_options (default_options ''exception'') (member_header ''exception'' ''pkg.sub.Oops'')"
    using i1 by (rule conjunct1)
  have a: "get_module_member_rst (example_decider_config None)
       ''exception'' ''pkg.sub.Oops'' (ClassObj True) None =
     get_module_member_rst
       ((example_decider_config None)\<lparr>autodoc_options_decider :=
           DeciderFun (\<lambda>w n ob ds defaultOptions. (defaultOptions, Some defaultOptions))\<rparr>)
       ''exception'' ''pkg.sub.Oops'' (ClassObj True) None"
    using i1 by blast
  have b: "get_module_member_rst (example_decider_config None)
       ''exception'' ''pkg.sub.Oops'' (ClassObj True) None =
     Inr (member_header ''exception'' ''pkg.sub.Oops'' @ ''   :members:'' @ nl)"
  proof -
    from i1 have "get_module_member_rst (example_decider_config None)
       ''exception'' ''pkg.sub.Oops'' (ClassObj True) None =
     Inr (member_header ''exception'' ''pkg.sub.Oops'' @
          (if ''exception'' = ''class'' \<or> ''exception'' = ''exception''
           then ''   :members:'' @ nl else []))"
      by blast
    then show ?thesis by simp
  qed
  have c: "get_module_member_rst (example_decider_config None)
       ''function'' ''pkg.sub.f'' FunctionObj None =
     Inr (member_header ''function'' ''pkg.sub.f'')"
  proof -
    from i2 have "get_module_member_rst (example_decider_config None)
       ''function'' ''pkg.sub.f'' FunctionObj None =
     Inr (member_header ''function'' ''pkg.sub.f'' @
          (if ''function'' = ''class'' \<or> ''function'' = ''exception''
           then ''   :members:'' @ nl else []))"
      by blast
    then show ?thesis by simp
  qed
  from h1 r a b c show ?thesis by blast
qed

text \<open>
  C10 as stated fails for a callback that edits the defaults dictionary it is handed and
  returns \<^verbatim>\<open>None\<close>, as
  \<^verbatim>\<open>def decide(app, what, fullname, obj, docstring, defaultOptions, extra):
      defaultOptions['undoc-members'] = True\<close>
  does: the fallback is that same dictionary, so the edited options are rendered, not
  the defaults.
\<close>

definition example_editing_decider :: decider_fun where
  "example_editing_decider what fullname obj docstring defaultOptions =
     (defaultOptions @ [(''undoc-members'', PyTrue)], None)"

definition example_editing_config :: config where
  "example_editing_config =
     (default_config [])\<lparr>autodoc_options_decider := DeciderFun example_editing_decider\<rparr>"

text \<open>
  C10 as stated, at the function \<^verbatim>\<open>pkg.sub.f\<close> under that callback: the callback returns
  \<^verbatim>\<open>None\<close>, yet the block carries the flag \<^verbatim>\<open>:undoc-members:\<close>, which the block rendered
  from the defaults does not.
\<close>

theorem editing_decider_counterexample:
  "snd (example_editing_decider ''function'' ''pkg.sub.f'' FunctionObj None
          (default_options ''function'')) = None \<and>
   get_module_member_rst example_editing_config ''function'' ''pkg.sub.f'' FunctionObj None =
     Inr (member_header ''function'' ''pkg.sub.f'' @ ''   :undoc-members:'' @ nl) \<and>
   get_module_member_rst (default_config []) ''function'' ''pkg.sub.f'' FunctionObj None =
     Inr (member_header ''function'' ''pkg.sub.f'') \<and>
   get_module_member_rst example_editing_config ''function'' ''pkg.sub.f'' FunctionObj None \<noteq>
     get_module_member_rst (default_config []) ''function'' ''pkg.sub.f'' FunctionObj None"
  by code_simp

section \<open>Classifying members\<close>

text \<open>
  C2, at a module \<^verbatim>\<open>m\<close> that defines \<^verbatim>\<open>class MyError(Exception)\<close>: the class derives from
  \<^verbatim>\<open>BaseException\<close>, yet the source tests \<^verbatim>\<open>isinstance(m, BaseException)\<close> on the class
  object, which is false, so the class lands in the \<^verbatim>\<open>class\<close> bucket and the
  \<^verbatim>\<open>exception\<close> bucket stays empty.
\<close>

theorem exception_class_classified_as_class:
  "issubclass_BaseException (mem_obj example_exception_class) \<and>
   member_type (mem_isattr example_exception_class) (mem_obj example_exception_class) =
     Some ''class'' \<and>
   collect_members (default_config []) ''m'' [example_exception_class] initial_members_by_type =
     Inr [(''module'', []), (''data'', []), (''class'', [(''m.MyError'', ClassObj True, None)]),
          (''exception'', []), (''function'', [])]"
  by code_simp

section \<open>Skipped modules\<close>

text \<open>
  C3. A module is skipped when the name pattern matches its name or the docstring pattern
  is found in its non-empty docstring. Visiting a skipped module returns \<^verbatim>\<open>False\<close> and
  leaves the session as it was: no submodule is visited, no member enumerated, no file
  registered or written, for the module or anything below it.
\<close>

theorem skipped_module_is_not_visited:
  "module_skipped cfg m =
     ((case skip_module_regex cfg of None \<Rightarrow> False | Some r \<Rightarrow> r (mod_name m)) \<or>
      (case skip_on_docstring_regex cfg of
         None \<Rightarrow> False
       | Some r \<Rightarrow> (case mod_doc m of None \<Rightarrow> False | Some d \<Rightarrow> d \<noteq> [] \<and> r d))) \<and>
   (module_skipped cfg m \<longrightarrow> visit_module cfg m st = (Inr (Some False), st))"
  by (cases m) (auto simp: module_skipped_def split: option.splits)

theorem skipped_module_is_not_visited_witness:
  "module_skipped (default_config [example_package]) example_private \<and>
   submodules example_private = [example_leaf] \<and>
   visit_module (default_config [example_package]) example_private example_edited_session =
     (Inr (Some False), example_edited_session)"
proof -
  have h: "module_skipped (default_config [example_package]) example_private"
    by code_simp
  have s: "submodules example_private = [example_leaf]"
    by (simp add: example_private_def)
  from skipped_module_is_not_visited
         [of "default_config [example_package]" example_private example_edited_session] h s
  show ?thesis by blast
qed

section \<open>Writing a module's file\<close>

text \<open>A title with a carriage return in it, and the directory after a first build under
  that title.\<close>

definition example_cr_config :: config where
  "example_cr_config =
     (default_config [example_memberless])\<lparr>module_title_decider :=
        (\<lambda>modulename. [CHR ''a'', CHR 0x0D, CHR ''b''])\<rparr>"

definition example_cr_session :: session where
  "example_cr_session = snd (generate example_cr_config empty_session)"

text \<open>
  C6, as amended. When the module's output file already exists, the write step leaves the
  directory and the write log as they are if the file's content, as read in text mode,
  equals the rendered text or if \<open>overwrite_generated_source_rsts\<close> is false; only when
  what is read differs from the rendered text and overwriting is allowed is the file
  written, with the rendered text. What is read is the content itself when the content
  holds no carriage return.
\<close>

theorem existing_file_write_policy:
  assumes "files st (rst_basename modulename) = Some existing"
    and "write_module_rst cfg modulename rst st = (r, st')"
  shows "(universal_newlines existing = rst \<or> \<not> overwrite_generated_source_rsts cfg \<longrightarrow>
            files st' = files st \<and> write_log st' = write_log st) \<and>
         (universal_newlines existing \<noteq> rst \<and> overwrite_generated_source_rsts cfg \<longrightarrow>
            files st' = (files st)(rst_basename modulename \<mapsto> rst) \<and>
            write_log st' = write_log st @ [(rst_basename modulename, rst)]) \<and>
         (CHR 0x0D \<notin> set existing \<longrightarrow> universal_newlines existing = existing)"
proof -
  have "CHR 0x0D \<notin> set existing \<longrightarrow> universal_newlines existing = existing"
    by (induction existing rule: universal_newlines.induct) auto
  moreover have
    "(universal_newlines existing = rst \<or> \<not> overwrite_generated_source_rsts cfg \<longrightarrow>
        files st' = files st \<and> write_log st' = write_log st) \<and>
     (universal_newlines existing \<noteq> rst \<and> overwrite_generated_source_rsts cfg \<longrightarrow>
        files st' = (files st)(rst_basename modulename \<mapsto> rst) \<and>
        write_log st' = write_log st @ [(rst_basename modulename, rst)])"
    using assms
    by (auto simp: write_module_rst_def write_file_def Let_def split: if_splits)
  ultimately show ?thesis by blast
qed

theorem existing_file_write_policy_witness:
  "files example_edited_session (rst_basename ''m'') = Some ''edited by hand'' \<and>
   CHR 0x0D \<notin> set ''edited by hand'' \<and>
   universal_newlines ''edited by hand'' = ''edited by hand'' \<and>
   \<not> overwrite_generated_source_rsts
       ((default_config [])\<lparr>overwrite_generated_source_rsts := False\<rparr>) \<and>
   files (snd (write_module_rst ((default_config [])\<lparr>overwrite_generated_source_rsts := False\<rparr>)
                 ''m'' ''rendered'' example_edited_session)) =
     files example_edited_session \<and>
   write_log (snd (write_module_rst
                     ((default_config [])\<lparr>overwrite_generated_source_rsts := False\<rparr>)
                     ''m'' ''rendered'' example_edited_session)) =
     write_log example_edited_session \<and>
   files (snd (write_module_rst (default_config []) ''m'' ''edited by hand''
                 example_edited_session)) =
     files example_edited_session \<and>
   ''edited by hand'' \<noteq> ''rendered'' \<and>
   overwrite_generated_source_rsts (default_config []) \<and>
   files (snd (write_module_rst (default_config []) ''m'' ''rendered'' example_edited_session)) =
     (files example_edited_session)(rst_basename ''m'' \<mapsto> ''rendered'') \<and>
   write_log (snd (write_module_rst (default_config []) ''m'' ''rendered''
                     example_edited_session)) =
     write_log example_edited_session @ [(rst_basename ''m'', ''rendered'')]"
proof -
  have h: "files example_edited_session (rst_basename ''m'') = Some ''edited by hand''"
    by (simp add: example_edited_session_def empty_session_def rst_basename_def)
  have k: "CHR 0x0D \<notin> set ''edited by hand''" by simp
  have p: "\<not> overwrite_generated_source_rsts
       ((default_config [])\<lparr>overwrite_generated_source_rsts := False\<rparr>)"
    by simp
  have d: "''edited by hand'' \<noteq> ''rendered''" by simp
  have o: "overwrite_generated_source_rsts (default_config [])"
    by (simp add: default_config_def)
  note t = existing_file_write_policy[OF h prod.collapse[symmetric]]
  from t[where cfg = "default_config []" and rst = "''rendered''"] k
  have u: "universal_newlines ''edited by hand'' = ''edited by hand''"
    by blast
  from t[where cfg = "(default_config [])\<lparr>overwrite_generated_source_rsts := False\<rparr>"
            and rst = "''rendered''"] p
  have c1: "files (snd (write_module_rst
                     ((default_config [])\<lparr>overwrite_generated_source_rsts := False\<rparr>)
                     ''m'' ''rendered'' example_edited_session)) =
     files example_edited_session \<and>
   write_log (snd (write_module_rst
                     ((default_config [])\<lparr>overwrite_generated_source_rsts := False\<rparr>)
                     ''m'' ''rendered'' example_edited_session)) =
     write_log example_edited_session"
    by blast
  from t[where cfg = "default_config []" and rst = "''edited by hand''"] u
  have c2: "files (snd (write_module_rst (default_config []) ''m'' ''edited by hand''
                 example_edited_session)) =
     files example_edited_session"
    by blast
  from d u have d': "universal_newlines ''edited by hand'' \<noteq> ''rendered''"
    by (simp only:) simp
  from t[where cfg = "default_config []" and rst = "''rendered''"] d' o
  have c3: "files (snd (write_module_rst (default_config []) ''m'' ''rendered''
                 example_edited_session)) =
     (files example_edited_session)(rst_basename ''m'' \<mapsto> ''rendered'') \<and>
   write_log (snd (write_module_rst (default_config []) ''m'' ''rendered''
                     example_edited_session)) =
     write_log example_edited_session @ [(rst_basename ''m'', ''rendered'')]"
    by blast
  from h k u p d o c1 c2 c3 show ?thesis by blast
qed

text \<open>
  C6 as stated fails for a rendered text that holds a carriage return: after a first
  build the file \<^verbatim>\<open>m.rst\<close> holds exactly the rendered text, but read in text mode it
  comes back with a line feed in place of the carriage return, so the comparison fails
  and the file is written again although its content does not differ.
\<close>

theorem carriage_return_counterexample:
  "files example_cr_session (rst_basename ''m'') = Some (module_header example_cr_config ''m'') \<and>
   overwrite_generated_source_rsts example_cr_config \<and>
   write_log (snd (write_module_rst example_cr_config ''m''
                     (module_header example_cr_config ''m'') example_cr_session)) =
     write_log example_cr_session @
     [(rst_basename ''m'', module_header example_cr_config ''m'')]"
  by code_simp

section \<open>Fatal configuration errors\<close>

lemma normalize_decider_fields:
  "modules (normalize_decider cfg) = modules cfg"
  "generated_source_dir (normalize_decider cfg) = generated_source_dir cfg"
  "overwrite_generated_source_rsts (normalize_decider cfg) = overwrite_generated_source_rsts cfg"
  "skip_module_regex (normalize_decider cfg) = skip_module_regex cfg"
  "skip_on_docstring_regex (normalize_decider cfg) = skip_on_docstring_regex cfg"
  "write_documented_items_output_file (normalize_decider cfg) =
     write_documented_items_output_file cfg"
  by (simp_all add: normalize_decider_def split: decider.splits)

lemma module_skipped_normalize:
  "module_skipped (normalize_decider cfg) m = module_skipped cfg m"
  by (simp add: module_skipped_def normalize_decider_fields)









section \<open>Modules without members\<close>

text \<open>
  C1, at a module \<^verbatim>\<open>m\<close> with no members in an empty generated directory: every bucket of
  the mapping is empty, yet the mapping itself still has its five keys, so
  \<^verbatim>\<open>generate_module_rst\<close> renders the heading and the run writes \<^verbatim>\<open>m.rst\<close>.
\<close>

theorem memberless_module_gets_output_file:
  "fst (generate (default_config [example_memberless]) empty_session) = Inr () \<and>
   collect_members (default_config [example_memberless]) ''m'' (mod_members example_memberless)
       initial_members_by_type =
     Inr [(''module'', []), (''data'', []), (''class'', []), (''exception'', []),
          (''function'', [])] \<and>
   write_log (snd (generate (default_config [example_memberless]) empty_session)) =
     [(''m.rst'', module_header (default_config [example_memberless]) ''m'')] \<and>
   files (snd (generate (default_config [example_memberless]) empty_session)) ''m.rst'' =
     Some (module_header (default_config [example_memberless]) ''m'')"
  by code_simp

section \<open>The walk as a sequence of events\<close>

text \<open>Adding items to the set of documented items.\<close>

definition add_items :: "string set \<Rightarrow> session \<Rightarrow> session" where
  "add_items D st = st\<lparr>documented_items := documented_items st \<union> D\<rparr>"

lemma add_items_add_items: "add_items D (add_items E st) = add_items (E \<union> D) st"
  by (simp add: add_items_def Un_assoc)

lemma add_items_empty: "add_items {} st = st"
  by (simp add: add_items_def)

text \<open>
  What \<^verbatim>\<open>generate_member_type_rst\<close>, the section loop and \<^verbatim>\<open>generate_module_rst\<close> return
  does not depend on the session, and all they do to the session is add documented items.
  The text and the items are read off a run on the empty session.
\<close>

definition member_type_rst :: "config \<Rightarrow> pymodule \<Rightarrow> string \<Rightarrow> entry list \<Rightarrow> error + string" where
  "member_type_rst cfg module memberType mems =
     fst (generate_member_type_rst cfg module memberType mems empty_session)"

lemma generate_member_type_rst_split:
  "generate_member_type_rst cfg module memberType mems st =
     (member_type_rst cfg module memberType mems,
      add_items (set (map (\<lambda>(qname, m, d). item_label qname memberType) mems)) st)"
  by (simp add: generate_member_type_rst_def member_type_rst_def add_items_def Let_def
           split: sum.splits)

definition sections_rst ::
  "config \<Rightarrow> pymodule \<Rightarrow> members_by_type \<Rightarrow> string \<Rightarrow> error + string" where
  "sections_rst cfg module mbt output = fst (module_sections cfg module mbt output empty_session)"

definition sections_items ::
  "config \<Rightarrow> pymodule \<Rightarrow> members_by_type \<Rightarrow> string \<Rightarrow> string set" where
  "sections_items cfg module mbt output =
     documented_items (snd (module_sections cfg module mbt output empty_session))"

lemma documented_items_add_items:
  "documented_items (add_items D st) = documented_items st \<union> D"
  by (simp add: add_items_def)

lemma documented_items_empty_session: "documented_items empty_session = {}"
  by (simp add: empty_session_def)

lemma module_sections_split:
  "module_sections cfg module mbt out st =
     (sections_rst cfg module mbt out, add_items (sections_items cfg module mbt out) st)"
proof (induction mbt arbitrary: out st)
  case Nil
  show ?case
    by (simp add: sections_rst_def sections_items_def add_items_empty
          documented_items_empty_session)
next
  case (Cons kv mbt)
  obtain k mems where kv: "kv = (k, mems)" by (cases kv)
  let ?D = "set (map (\<lambda>(qname, m, d). item_label qname k) mems)"
  show ?case
  proof (cases "mems = []")
    case True
    then have a: "module_sections cfg module (kv # mbt) out s =
                  module_sections cfg module mbt out s" for s
      using kv by simp
    have r: "sections_rst cfg module (kv # mbt) out = sections_rst cfg module mbt out"
      by (simp only: sections_rst_def a)
    have i: "sections_items cfg module (kv # mbt) out = sections_items cfg module mbt out"
      by (simp only: sections_items_def a)
    show ?thesis
      by (simp only: a r i Cons.IH)
  next
    case False
    show ?thesis
    proof (cases "member_type_rst cfg module k mems")
      case (Inl e)
      then have a: "module_sections cfg module (kv # mbt) out s = (Inl e, add_items ?D s)" for s
        using False kv by (simp add: generate_member_type_rst_split)
      have r: "sections_rst cfg module (kv # mbt) out = Inl e"
        by (simp only: sections_rst_def a fst_conv)
      have i: "sections_items cfg module (kv # mbt) out = ?D"
        by (simp only: sections_items_def a snd_conv)
           (simp add: documented_items_add_items documented_items_empty_session)
      show ?thesis
        by (simp only: a r i)
    next
      case (Inr extra)
      let ?out = "if extra \<noteq> [] then out @ nl @ extra else out"
      have a: "module_sections cfg module (kv # mbt) out s =
               module_sections cfg module mbt ?out (add_items ?D s)" for s
        using False kv Inr by (simp add: generate_member_type_rst_split)
      have ih: "module_sections cfg module mbt ?out s =
                  (sections_rst cfg module mbt ?out,
                   add_items (sections_items cfg module mbt ?out) s)" for s
        by (rule Cons.IH)
      have r: "sections_rst cfg module (kv # mbt) out = sections_rst cfg module mbt ?out"
      proof -
        have "sections_rst cfg module (kv # mbt) out =
                fst (module_sections cfg module mbt ?out (add_items ?D empty_session))"
          by (simp only: sections_rst_def a)
        also have "\<dots> = sections_rst cfg module mbt ?out"
          by (simp only: ih fst_conv)
        finally show ?thesis .
      qed
      have i: "sections_items cfg module (kv # mbt) out =
                 ?D \<union> sections_items cfg module mbt ?out"
      proof -
        have "sections_items cfg module (kv # mbt) out =
                documented_items
                  (snd (module_sections cfg module mbt ?out (add_items ?D empty_session)))"
          by (simp only: sections_items_def a)
        also have "\<dots> = ?D \<union> sections_items cfg module mbt ?out"
          by (simp only: ih snd_conv documented_items_add_items documented_items_empty_session
                Un_empty_left)
        finally show ?thesis .
      qed
      show ?thesis
        by (simp only: a ih r i add_items_add_items)
    qed
  qed
qed

definition module_rst :: "config \<Rightarrow> pymodule \<Rightarrow> members_by_type \<Rightarrow> error + string option" where
  "module_rst cfg module mbt = fst (generate_module_rst cfg module mbt empty_session)"

definition module_items :: "config \<Rightarrow> pymodule \<Rightarrow> members_by_type \<Rightarrow> string set" where
  "module_items cfg module mbt =
     documented_items (snd (generate_module_rst cfg module mbt empty_session))"

lemma generate_module_rst_split:
  "generate_module_rst cfg module mbt st =
     (module_rst cfg module mbt, add_items (module_items cfg module mbt) st)"
proof (cases "mbt = []")
  case True
  then show ?thesis
    by (simp add: generate_module_rst_def module_rst_def module_items_def add_items_empty
          documented_items_empty_session)
next
  case False
  have ins: "s\<lparr>documented_items := insert x (documented_items s)\<rparr> = add_items {x} s" for s x
    by (simp add: add_items_def)
  show ?thesis
    using False
    by (cases "sections_rst cfg module mbt (module_header cfg (mod_name module))")
       (simp_all add: generate_module_rst_def module_rst_def module_items_def Let_def ins
          module_sections_split add_items_add_items documented_items_add_items
          documented_items_empty_session)
qed

text \<open>
  What a walk does to the session is a sequence of two kinds of events: items are added to
  the documented items, and the end of \<^verbatim>\<open>visit_module\<close> is run for a module name and a
  rendered text.
\<close>

datatype event = Documented "string set" | Rendered string string

fun replay_event :: "config \<Rightarrow> event \<Rightarrow> session \<Rightarrow> session" where
  "replay_event cfg (Documented D) st = add_items D st"
| "replay_event cfg (Rendered modulename rst) st = snd (write_module_rst cfg modulename rst st)"

definition replay :: "config \<Rightarrow> event list \<Rightarrow> session \<Rightarrow> session" where
  "replay cfg evs st = fold (replay_event cfg) evs st"

lemma replay_Nil: "replay cfg [] st = st"
  by (simp add: replay_def)

lemma replay_append: "replay cfg (xs @ ys) st = replay cfg ys (replay cfg xs st)"
  by (simp add: replay_def)

lemma replay_Cons: "replay cfg (x # xs) st = replay cfg xs (replay_event cfg x st)"
  by (simp add: replay_def)

text \<open>The part of \<^verbatim>\<open>visit_module\<close> that follows the loop over the submodules, and
  the result and events it yields.\<close>

definition finish_module ::
  "config \<Rightarrow> pymodule \<Rightarrow> members_by_type \<Rightarrow> session \<Rightarrow> (error + bool option) \<times> session" where
  "finish_module cfg module mbt st =
     (if \<not> documenter_ok module then
        (Inl (AssertionError ''documenter failed to import module''), st)
      else
        (case collect_members cfg (mod_name module) (mod_members module) mbt of
           Inl e \<Rightarrow> (Inl e, st)
         | Inr mbt' \<Rightarrow>
             (case generate_module_rst cfg module mbt' st of
                (Inl e, st2) \<Rightarrow> (Inl e, st2)
              | (Inr None, st2) \<Rightarrow> (Inr None, st2)
              | (Inr (Some rst), st2) \<Rightarrow>
                  if rst = [] then (Inr None, st2)
                  else write_module_rst cfg (mod_name module) rst st2)))"

definition trace_finish ::
  "config \<Rightarrow> pymodule \<Rightarrow> members_by_type \<Rightarrow> (error + bool option) \<times> event list" where
  "trace_finish cfg module mbt =
     (if \<not> documenter_ok module then
        (Inl (AssertionError ''documenter failed to import module''), [])
      else
        (case collect_members cfg (mod_name module) (mod_members module) mbt of
           Inl e \<Rightarrow> (Inl e, [])
         | Inr mbt' \<Rightarrow>
             (case module_rst cfg module mbt' of
                Inl e \<Rightarrow> (Inl e, [Documented (module_items cfg module mbt')])
              | Inr None \<Rightarrow> (Inr None, [Documented (module_items cfg module mbt')])
              | Inr (Some rst) \<Rightarrow>
                  if rst = [] then (Inr None, [Documented (module_items cfg module mbt')])
                  else (Inr (Some True),
                        [Documented (module_items cfg module mbt'),
                         Rendered (mod_name module) rst]))))"

lemma fst_write_module_rst: "fst (write_module_rst cfg n rst st) = Inr (Some True)"
  by (simp add: write_module_rst_def Let_def split: option.splits)

lemma finish_module_trace:
  "finish_module cfg module mbt st =
     (fst (trace_finish cfg module mbt), replay cfg (snd (trace_finish cfg module mbt)) st)"
  by (auto simp: finish_module_def trace_finish_def generate_module_rst_split replay_def
        fst_write_module_rst prod_eq_iff
      split: sum.splits option.splits)

text \<open>The result and the events of \<^verbatim>\<open>visit_module\<close> and of its loop over the submodules,
  computed without a session.\<close>

fun trace_module :: "config \<Rightarrow> pymodule \<Rightarrow> (error + bool option) \<times> event list"
  and trace_submodules ::
    "config \<Rightarrow> pymodule list \<Rightarrow> members_by_type \<Rightarrow> (error + members_by_type) \<times> event list"
where
  "trace_module cfg (PyModule modulename d pkg subs ok mems) =
     (if module_skipped cfg (PyModule modulename d pkg subs ok mems) then (Inr (Some False), [])
      else
        (case (if pkg then trace_submodules cfg subs initial_members_by_type
               else (Inr initial_members_by_type, [])) of
           (Inl e, evs) \<Rightarrow> (Inl e, evs)
         | (Inr membersByType, evs) \<Rightarrow>
             (case trace_finish cfg (PyModule modulename d pkg subs ok mems) membersByType of
                (r, evs') \<Rightarrow> (r, evs @ evs'))))"
| "trace_submodules cfg [] membersByType = (Inr membersByType, [])"
| "trace_submodules cfg (submodule # rest) membersByType =
     (case trace_module cfg submodule of
        (Inl e, evs) \<Rightarrow> (Inl e, evs)
      | (Inr r, evs) \<Rightarrow>
          (case (if r \<noteq> Some True then trace_submodules cfg rest membersByType
                 else if ''module'' \<in> set (map fst membersByType) then
                   (case dict_append membersByType ''module''
                           (mod_name submodule, ModuleObj, mod_doc submodule) of
                      Inl e \<Rightarrow> (Inl e, [])
                    | Inr membersByType' \<Rightarrow> trace_submodules cfg rest membersByType')
                 else trace_submodules cfg rest membersByType) of
             (r', evs') \<Rightarrow> (r', evs @ evs')))"

lemma visit_module_finish:
  "visit_module cfg (PyModule modulename d pkg subs ok mems) st =
     (if module_skipped cfg (PyModule modulename d pkg subs ok mems) then (Inr (Some False), st)
      else
        (case (if pkg then visit_submodules cfg subs initial_members_by_type st
               else (Inr initial_members_by_type, st)) of
           (Inl e, st1) \<Rightarrow> (Inl e, st1)
         | (Inr membersByType, st1) \<Rightarrow>
             finish_module cfg (PyModule modulename d pkg subs ok mems) membersByType st1))"
  by (simp add: finish_module_def split: prod.splits sum.splits option.splits)

text \<open>A walk returns what its trace says and leaves the session that replaying its events
  gives.\<close>

lemma walk_trace:
  "visit_module cfg m st =
     (fst (trace_module cfg m), replay cfg (snd (trace_module cfg m)) st)"
  "visit_submodules cfg ms mbt st =
     (fst (trace_submodules cfg ms mbt), replay cfg (snd (trace_submodules cfg ms mbt)) st)"
proof (induction cfg m st and cfg ms mbt st rule: visit_module_visit_submodules.induct)
  case (1 cfg modulename d pkg subs ok mems st)
  let ?M = "PyModule modulename d pkg subs ok mems"
  show ?case
  proof (cases "module_skipped cfg ?M")
    case True
    then show ?thesis by (simp add: replay_Nil)
  next
    case notskipped: False
    show ?thesis
    proof (cases pkg)
      case False
      with notskipped show ?thesis
        by (simp only: visit_module_finish trace_module.simps)
           (simp add: finish_module_trace replay_Nil split: prod.splits)
    next
      case True
      note ih = 1[OF notskipped True]
      obtain r evs where t: "trace_submodules cfg subs initial_members_by_type = (r, evs)"
        by (cases "trace_submodules cfg subs initial_members_by_type")
      from ih t have v: "visit_submodules cfg subs initial_members_by_type st =
                           (r, replay cfg evs st)"
        by simp
      show ?thesis
      proof (cases r)
        case (Inl e)
        with notskipped True t v show ?thesis
          by (simp only: visit_module_finish trace_module.simps) simp
      next
        case (Inr mbt1)
        with notskipped True t v show ?thesis
          by (simp only: visit_module_finish trace_module.simps)
             (simp add: finish_module_trace replay_append split: prod.splits)
      qed
    qed
  qed
next
  case (2 cfg membersByType st)
  show ?case by (simp add: replay_Nil)
next
  case (3 cfg submodule rest membersByType st)
  obtain r evs where t: "trace_module cfg submodule = (r, evs)"
    by (cases "trace_module cfg submodule")
  from "3.IH"(1) t have v: "visit_module cfg submodule st = (r, replay cfg evs st)"
    by simp
  show ?case
  proof (cases r)
    case (Inl e)
    with t v show ?thesis by simp
  next
    case (Inr b)
    show ?thesis
    proof (cases "b \<noteq> Some True")
      case True
      from "3.IH"(2)[OF v[symmetric] Inr True] Inr True t v show ?thesis
        by (simp add: replay_append split: prod.splits)
    next
      case bt: False
      show ?thesis
      proof (cases "''module'' \<in> set (map fst membersByType)")
        case False
        from "3.IH"(4)[OF v[symmetric] Inr bt False] Inr bt False t v show ?thesis
          by (simp add: replay_append split: prod.splits)
      next
        case True
        show ?thesis
        proof (cases "dict_append membersByType ''module''
                        (mod_name submodule, ModuleObj, mod_doc submodule)")
          case (Inl e)
          with Inr bt True t v show ?thesis
            by (simp add: replay_append replay_Nil)
        next
          case ba: (Inr mbt')
          from "3.IH"(3)[OF v[symmetric] Inr bt True ba] Inr bt True ba t v show ?thesis
            by (simp add: replay_append split: prod.splits)
        qed
      qed
    qed
  qed
qed

fun trace_modules :: "config \<Rightarrow> pymodule list \<Rightarrow> (error + unit) \<times> event list" where
  "trace_modules cfg [] = (Inr (), [])"
| "trace_modules cfg (md # mds) =
     (case trace_module cfg md of
        (Inl e, evs) \<Rightarrow> (Inl e, evs)
      | (Inr r, evs) \<Rightarrow> (case trace_modules cfg mds of (r', evs') \<Rightarrow> (r', evs @ evs')))"

lemma visit_modules_trace:
  "visit_modules cfg mds st =
     (fst (trace_modules cfg mds), replay cfg (snd (trace_modules cfg mds)) st)"
proof (induction mds arbitrary: st)
  case Nil
  show ?case by (simp add: replay_Nil)
next
  case (Cons md mds)
  obtain r evs where t: "trace_module cfg md = (r, evs)"
    by (cases "trace_module cfg md")
  then have v: "visit_module cfg md st = (r, replay cfg evs st)"
    by (simp add: walk_trace(1))
  show ?case
    using t v Cons.IH[of "replay cfg evs st"]
    by (cases r) (simp_all add: replay_append split: prod.splits)
qed

lemma initial_members_by_type_nonempty: "initial_members_by_type \<noteq> []"
  by (simp add: initial_members_by_type_def doc_module_member_types_def)

lemma dict_append_nonempty: "dict_append mbt k x = Inr mbt' \<Longrightarrow> mbt' \<noteq> []"
  by (auto simp: dict_append_def split: if_splits)

lemma collect_members_nonempty:
  "collect_members cfg n mems mbt = Inr mbt' \<Longrightarrow> mbt \<noteq> [] \<Longrightarrow> mbt' \<noteq> []"
proof (induction mems arbitrary: mbt)
  case Nil
  then show ?case by simp
next
  case (Cons x xs)
  then show ?case
    by (auto simp: Let_def split: if_splits option.splits sum.splits
          dest: dict_append_nonempty)
qed

lemma sections_rst_Nil: "sections_rst cfg module [] out = Inr out"
  by (simp add: sections_rst_def)

lemma sections_rst_Cons:
  "sections_rst cfg module ((k, mems) # mbt) out =
     (if mems = [] then sections_rst cfg module mbt out
      else (case member_type_rst cfg module k mems of
              Inl e \<Rightarrow> Inl e
            | Inr extra \<Rightarrow>
                sections_rst cfg module mbt (if extra \<noteq> [] then out @ nl @ extra else out)))"
proof -
  have "sections_rst cfg module ((k, mems) # mbt) out =
          fst (module_sections cfg module ((k, mems) # mbt) out empty_session)"
    by (simp only: sections_rst_def)
  also have "\<dots> =
     (if mems = [] then fst (module_sections cfg module mbt out empty_session)
      else (case member_type_rst cfg module k mems of
              Inl e \<Rightarrow> Inl e
            | Inr extra \<Rightarrow>
                fst (module_sections cfg module mbt
                       (if extra \<noteq> [] then out @ nl @ extra else out)
                       (add_items (set (map (\<lambda>(qname, m, d). item_label qname k) mems))
                          empty_session))))"
    by (simp add: generate_member_type_rst_split split: sum.splits)
  also have "\<dots> =
     (if mems = [] then sections_rst cfg module mbt out
      else (case member_type_rst cfg module k mems of
              Inl e \<Rightarrow> Inl e
            | Inr extra \<Rightarrow>
                sections_rst cfg module mbt (if extra \<noteq> [] then out @ nl @ extra else out)))"
    by (simp add: module_sections_split split: sum.splits)
  finally show ?thesis .
qed

lemma sections_rst_nonempty:
  "sections_rst cfg module mbt out = Inr out' \<Longrightarrow> out \<noteq> [] \<Longrightarrow> out' \<noteq> []"
proof (induction mbt arbitrary: out)
  case Nil
  then show ?case by (simp add: sections_rst_Nil)
next
  case (Cons kv mbt)
  obtain k mems where kv: "kv = (k, mems)" by (cases kv)
  show ?case
  proof (cases "mems = []")
    case True
    with Cons kv show ?thesis by (simp add: sections_rst_Cons)
  next
    case False
    show ?thesis
    proof (cases "member_type_rst cfg module k mems")
      case (Inl e)
      with False kv Cons.prems show ?thesis
        by (simp add: sections_rst_Cons)
    next
      case (Inr extra)
      let ?out = "if extra \<noteq> [] then out @ nl @ extra else out"
      have "sections_rst cfg module (kv # mbt) out = sections_rst cfg module mbt ?out"
        using False kv Inr by (simp add: sections_rst_Cons)
      moreover have "?out \<noteq> []" using Cons.prems(2) by simp
      ultimately show ?thesis using Cons.prems(1) Cons.IH[of ?out] by simp
    qed
  qed
qed

lemma module_header_nonempty: "module_header cfg n \<noteq> []"
  by (simp add: module_header_def nl_def Let_def)

lemma module_rst_nonempty:
  assumes "module_rst cfg module mbt = Inr r" and "mbt \<noteq> []"
  shows "\<exists>rst. r = Some rst \<and> rst \<noteq> []"
proof -
  from assms have
    "(case sections_rst cfg module mbt (module_header cfg (mod_name module)) of
        Inl e \<Rightarrow> Inl e | Inr out \<Rightarrow> Inr (Some out)) = Inr r"
    by (simp add: module_rst_def generate_module_rst_def Let_def module_sections_split
          split: sum.splits prod.splits)
  then obtain out where o: "sections_rst cfg module mbt (module_header cfg (mod_name module)) = Inr out"
    and r: "r = Some out"
    by (auto split: sum.splits)
  from sections_rst_nonempty[OF o module_header_nonempty] r show ?thesis by simp
qed

lemma trace_finish_success:
  assumes "fst (trace_finish cfg module mbt) = Inr r" and "mbt \<noteq> []"
  shows "r = Some True \<and>
         (\<exists>D rst. snd (trace_finish cfg module mbt) =
                    [Documented D, Rendered (mod_name module) rst])"
proof -
  from assms(1) have ok: "documenter_ok module"
    by (auto simp: trace_finish_def split: if_splits)
  from assms(1) ok obtain mbt' where
    c: "collect_members cfg (mod_name module) (mod_members module) mbt = Inr mbt'"
    by (cases "collect_members cfg (mod_name module) (mod_members module) mbt")
       (auto simp: trace_finish_def)
  from collect_members_nonempty[OF c assms(2)] have ne: "mbt' \<noteq> []" .
  from assms(1) ok c obtain q where q: "module_rst cfg module mbt' = Inr q"
    by (cases "module_rst cfg module mbt'") (auto simp: trace_finish_def)
  from module_rst_nonempty[OF q ne] obtain rst where "q = Some rst" "rst \<noteq> []" by blast
  with assms(1) ok c q show ?thesis
    by (auto simp: trace_finish_def)
qed

lemma trace_submodules_nonempty:
  "fst (trace_submodules cfg ms mbt) = Inr mbt' \<Longrightarrow> mbt \<noteq> [] \<Longrightarrow> mbt' \<noteq> []"
proof (induction ms arbitrary: mbt)
  case Nil
  then show ?case by simp
next
  case (Cons s rest)
  obtain r evs where t: "trace_module cfg s = (r, evs)" by (cases "trace_module cfg s")
  show ?case
  proof (cases r)
    case (Inl e)
    with t Cons.prems show ?thesis by simp
  next
    case (Inr b)
    show ?thesis
    proof (cases "b \<noteq> Some True")
      case True
      with t Inr Cons.prems have "fst (trace_submodules cfg rest mbt) = Inr mbt'"
        by (simp split: prod.splits)
      from Cons.IH[OF this Cons.prems(2)] show ?thesis .
    next
      case bt: False
      show ?thesis
      proof (cases "''module'' \<in> set (map fst mbt)")
        case False
        with t Inr bt Cons.prems have "fst (trace_submodules cfg rest mbt) = Inr mbt'"
          by (simp split: prod.splits)
        from Cons.IH[OF this Cons.prems(2)] show ?thesis .
      next
        case True
        show ?thesis
        proof (cases "dict_append mbt ''module'' (mod_name s, ModuleObj, mod_doc s)")
          case (Inl e)
          with t Inr bt True Cons.prems show ?thesis by simp
        next
          case ba: (Inr mbt1)
          with t Inr bt True Cons.prems have "fst (trace_submodules cfg rest mbt1) = Inr mbt'"
            by (simp split: prod.splits)
          from Cons.IH[OF this dict_append_nonempty[OF ba]] show ?thesis .
        qed
      qed
    qed
  qed
qed

lemma trace_module_success:
  assumes "fst (trace_module cfg m) = Inr r" and "\<not> module_skipped cfg m"
  shows "r = Some True \<and>
         (\<exists>evs D rst. snd (trace_module cfg m) =
                        evs @ [Documented D, Rendered (mod_name m) rst])"
proof (cases m)
  case (PyModule n d pkg subs ok mems)
  let ?sub = "if pkg then trace_submodules cfg subs initial_members_by_type
              else (Inr initial_members_by_type, [])"
  obtain q evs where s: "?sub = (q, evs)" by (cases ?sub)
  from assms s PyModule obtain mbt where q: "q = Inr mbt"
    by (cases q) (auto split: if_splits)
  have ne: "mbt \<noteq> []"
  proof (cases pkg)
    case True
    with s q have "fst (trace_submodules cfg subs initial_members_by_type) = Inr mbt" by simp
    from trace_submodules_nonempty[OF this initial_members_by_type_nonempty] show ?thesis .
  next
    case False
    with s q show ?thesis by (simp add: initial_members_by_type_nonempty)
  qed
  obtain r' evs' where f: "trace_finish cfg m mbt = (r', evs')"
    by (cases "trace_finish cfg m mbt")
  have tm: "trace_module cfg m = (r', evs @ evs')"
    using assms(2) s q f unfolding PyModule by (simp del: trace_finish_def)
  with assms(1) have "fst (trace_finish cfg m mbt) = Inr r" using f by simp
  from trace_finish_success[OF this ne] f tm show ?thesis by auto
qed

text \<open>
  The modules a walk reaches and does not skip: a module that is not skipped, followed,
  when it is a package, by what is reached from its submodules.
\<close>

fun visited_module :: "config \<Rightarrow> pymodule \<Rightarrow> pymodule list"
  and visited_list :: "config \<Rightarrow> pymodule list \<Rightarrow> pymodule list"
where
  "visited_module cfg (PyModule modulename d pkg subs ok mems) =
     (if module_skipped cfg (PyModule modulename d pkg subs ok mems) then []
      else PyModule modulename d pkg subs ok mems #
           (if pkg then visited_list cfg subs else []))"
| "visited_list cfg [] = []"
| "visited_list cfg (submodule # rest) =
     visited_module cfg submodule @ visited_list cfg rest"

text \<open>The text rendered for a module, read off the last event of its own walk; and the
  events of a walk that completes are the renderings of the modules it reaches.\<close>

definition own_rst :: "config \<Rightarrow> pymodule \<Rightarrow> string option" where
  "own_rst cfg m =
     (case rev (snd (trace_module cfg m)) of
        Rendered n rst # es \<Rightarrow> Some rst
      | _ \<Rightarrow> None)"

definition events_match :: "config \<Rightarrow> pymodule list \<Rightarrow> event list \<Rightarrow> bool" where
  "events_match cfg V evs =
     ((\<forall>x \<in> set V. \<exists>rst. own_rst cfg x = Some rst \<and> Rendered (mod_name x) rst \<in> set evs) \<and>
      (\<forall>n rst. Rendered n rst \<in> set evs \<longrightarrow>
         (\<exists>x \<in> set V. mod_name x = n \<and> own_rst cfg x = Some rst)))"

lemma events_match_Nil: "events_match cfg [] []"
  by (simp add: events_match_def)

lemma events_match_append:
  "events_match cfg V1 e1 \<Longrightarrow> events_match cfg V2 e2 \<Longrightarrow> events_match cfg (V1 @ V2) (e1 @ e2)"
  unfolding events_match_def by (auto; blast)

lemma events_match_own:
  assumes "events_match cfg V evs" and "own_rst cfg m = Some rst"
  shows "events_match cfg (m # V) (evs @ [Documented D, Rendered (mod_name m) rst])"
  using assms unfolding events_match_def by (auto; blast)

lemma own_rst_success:
  assumes "snd (trace_module cfg m) = evs @ [Documented D, Rendered n rst]"
  shows "own_rst cfg m = Some rst"
  using assms by (simp add: own_rst_def)

lemma trace_events_match:
  "\<not> isl (fst (trace_module cfg m)) \<Longrightarrow>
     events_match cfg (visited_module cfg m) (snd (trace_module cfg m))"
  "\<not> isl (fst (trace_submodules cfg ms mbt)) \<Longrightarrow>
     events_match cfg (visited_list cfg ms) (snd (trace_submodules cfg ms mbt))"
proof (induction cfg m and cfg ms mbt rule: trace_module_trace_submodules.induct)
  case (1 cfg modulename d pkg subs ok mems)
  let ?M = "PyModule modulename d pkg subs ok mems"
  show ?case
  proof (cases "module_skipped cfg ?M")
    case True
    then show ?thesis by (simp add: events_match_Nil)
  next
    case notskipped: False
    from "1.prems" obtain r where r: "fst (trace_module cfg ?M) = Inr r"
      by (cases "fst (trace_module cfg ?M)") auto
    from trace_module_success[OF r notskipped] obtain evs0 D rst where
      ev: "snd (trace_module cfg ?M) = evs0 @ [Documented D, Rendered (mod_name ?M) rst]"
      by blast
    from own_rst_success[OF ev] have own: "own_rst cfg ?M = Some rst" .
    let ?sub = "if pkg then trace_submodules cfg subs initial_members_by_type
                else (Inr initial_members_by_type, [])"
    obtain q evs where s: "?sub = (q, evs)" by (cases ?sub)
    from r s notskipped obtain mbt where q: "q = Inr mbt"
      by (cases q) (auto split: if_splits)
    obtain r' evs' where f: "trace_finish cfg ?M mbt = (r', evs')"
      by (cases "trace_finish cfg ?M mbt")
    have tm: "trace_module cfg ?M = (r', evs @ evs')"
      using notskipped s q f by (simp del: trace_finish_def)
    have ne: "mbt \<noteq> []"
    proof (cases pkg)
      case True
      with s q have "fst (trace_submodules cfg subs initial_members_by_type) = Inr mbt" by simp
      from trace_submodules_nonempty[OF this initial_members_by_type_nonempty] show ?thesis .
    next
      case False
      with s q show ?thesis by (simp add: initial_members_by_type_nonempty)
    qed
    from tm r have "fst (trace_finish cfg ?M mbt) = Inr r" using f by simp
    from trace_finish_success[OF this ne] f obtain D' rst' where
      evs': "evs' = [Documented D', Rendered (mod_name ?M) rst']" by auto
    with tm ev have same: "evs0 = evs" "rst' = rst" "D' = D" by auto
    have sub_match: "events_match cfg (if pkg then visited_list cfg subs else []) evs"
    proof (cases pkg)
      case True
      with s q have "\<not> isl (fst (trace_submodules cfg subs initial_members_by_type))" by simp
      from "1.IH"[OF notskipped True this] s True show ?thesis by simp
    next
      case False
      with s show ?thesis by (simp add: events_match_Nil)
    qed
    from events_match_own[OF sub_match own, of D] ev same notskipped show ?thesis
      by simp
  qed
next
  case (2 cfg membersByType)
  show ?case by (simp add: events_match_Nil)
next
  case (3 cfg submodule rest membersByType)
  obtain r evs where t: "trace_module cfg submodule = (r, evs)"
    by (cases "trace_module cfg submodule")
  from "3.prems" t obtain b where r: "r = Inr b"
    by (cases r) auto
  from t r have "\<not> isl (fst (trace_module cfg submodule))" by simp
  from "3.IH"(1)[OF this] t have m1: "events_match cfg (visited_module cfg submodule) evs"
    by simp
  show ?case
  proof (cases "b \<noteq> Some True")
    case True
    obtain r' evs' where t': "trace_submodules cfg rest membersByType = (r', evs')"
      by (cases "trace_submodules cfg rest membersByType")
    from "3.prems" t r True t' have "\<not> isl (fst (trace_submodules cfg rest membersByType))"
      by simp
    from "3.IH"(2)[OF t[symmetric] r True this] t'
    have "events_match cfg (visited_list cfg rest) evs'" by simp
    from events_match_append[OF m1 this] t r True t' show ?thesis by simp
  next
    case bt: False
    show ?thesis
    proof (cases "''module'' \<in> set (map fst membersByType)")
      case False
      obtain r' evs' where t': "trace_submodules cfg rest membersByType = (r', evs')"
        by (cases "trace_submodules cfg rest membersByType")
      from "3.prems" t r bt False t' have "\<not> isl (fst (trace_submodules cfg rest membersByType))"
        by simp
      from "3.IH"(4)[OF t[symmetric] r bt False this] t'
      have "events_match cfg (visited_list cfg rest) evs'" by simp
      from events_match_append[OF m1 this] t r bt False t' show ?thesis by simp
    next
      case True
      show ?thesis
      proof (cases "dict_append membersByType ''module''
                      (mod_name submodule, ModuleObj, mod_doc submodule)")
        case (Inl e)
        with "3.prems" t r bt True show ?thesis by simp
      next
        case ba: (Inr mbt')
        obtain r' evs' where t': "trace_submodules cfg rest mbt' = (r', evs')"
          by (cases "trace_submodules cfg rest mbt'")
        from "3.prems" t r bt True ba t' have "\<not> isl (fst (trace_submodules cfg rest mbt'))"
          by simp
        from "3.IH"(3)[OF t[symmetric] r bt True ba this] t'
        have "events_match cfg (visited_list cfg rest) evs'" by simp
        from events_match_append[OF m1 this] t r bt True ba t' show ?thesis by simp
      qed
    qed
  qed
qed

lemma trace_modules_match:
  "\<not> isl (fst (trace_modules cfg mds)) \<Longrightarrow>
     events_match cfg (visited_list cfg mds) (snd (trace_modules cfg mds))"
proof (induction mds)
  case Nil
  show ?case by (simp add: events_match_Nil)
next
  case (Cons md mds)
  obtain r evs where t: "trace_module cfg md = (r, evs)" by (cases "trace_module cfg md")
  from Cons.prems t obtain b where r: "r = Inr b" by (cases r) auto
  obtain r' evs' where t': "trace_modules cfg mds = (r', evs')"
    by (cases "trace_modules cfg mds")
  from t r have "\<not> isl (fst (trace_module cfg md))" by simp
  from trace_events_match(1)[OF this] t have m1: "events_match cfg (visited_module cfg md) evs"
    by simp
  from Cons.prems t r t' have "\<not> isl (fst (trace_modules cfg mds))" by simp
  from Cons.IH[OF this] t' have "events_match cfg (visited_list cfg mds) evs'" by simp
  from events_match_append[OF m1 this] t r t' show ?case by simp
qed

text \<open>The file names and texts of the rendering events, in order.\<close>

fun rendered :: "event list \<Rightarrow> (string \<times> string) list" where
  "rendered [] = []"
| "rendered (Documented D # es) = rendered es"
| "rendered (Rendered n rst # es) = (rst_basename n, rst) # rendered es"

lemma in_rendered:
  "(f, r) \<in> set (rendered evs) \<longleftrightarrow> (\<exists>n. f = rst_basename n \<and> Rendered n r \<in> set evs)"
proof (induction evs)
  case Nil
  show ?case by simp
next
  case (Cons e evs)
  then show ?case by (cases e) auto
qed

lemma universal_newlines_clean:
  "CHR 0x0D \<notin> set t \<Longrightarrow> universal_newlines t = t"
  by (induction t rule: universal_newlines.induct) auto

text \<open>A file is settled for a text when the end of \<^verbatim>\<open>visit_module\<close> would leave it alone:
  it holds the text already, or it exists and overwriting is off.\<close>

definition settled :: "config \<Rightarrow> (string \<rightharpoonup> string) \<Rightarrow> string \<Rightarrow> string \<Rightarrow> bool" where
  "settled cfg F f r =
     ((\<exists>c. F f = Some c \<and> universal_newlines c = r) \<or>
      (\<not> overwrite_generated_source_rsts cfg \<and> f \<in> dom F))"

lemma write_module_rst_generated:
  "rst_files_generated (snd (write_module_rst cfg n rst st)) =
     insert (rst_basename n) (rst_files_generated st)"
  by (simp add: write_module_rst_def write_file_def Let_def split: option.splits)

lemma write_module_rst_items:
  "documented_items (snd (write_module_rst cfg n rst st)) = documented_items st"
  by (simp add: write_module_rst_def write_file_def Let_def split: option.splits)

lemma write_module_rst_exists:
  "rst_basename n \<in> dom (files (snd (write_module_rst cfg n rst st)))"
  by (auto simp: write_module_rst_def write_file_def Let_def split: option.splits)

lemma write_module_rst_dom:
  "f \<in> dom (files st) \<Longrightarrow> f \<in> dom (files (snd (write_module_rst cfg n rst st)))"
  by (auto simp: write_module_rst_def write_file_def Let_def split: option.splits)

lemma write_module_rst_cases:
  "(files (snd (write_module_rst cfg n rst st)) = files st \<and>
    write_log (snd (write_module_rst cfg n rst st)) = write_log st) \<or>
   (files (snd (write_module_rst cfg n rst st)) = (files st)(rst_basename n \<mapsto> rst) \<and>
    write_log (snd (write_module_rst cfg n rst st)) = write_log st @ [(rst_basename n, rst)])"
  by (simp add: write_module_rst_def write_file_def Let_def split: option.splits)

lemma write_module_rst_settles:
  "write_log (snd (write_module_rst cfg n rst st)) = write_log st \<or>
     universal_newlines rst = rst \<Longrightarrow>
   settled cfg (files (snd (write_module_rst cfg n rst st))) (rst_basename n) rst"
  by (auto simp: settled_def write_module_rst_def write_file_def Let_def
        split: option.splits if_splits)

lemma write_module_rst_settled_noop:
  "settled cfg (files st) (rst_basename n) rst \<Longrightarrow>
   files (snd (write_module_rst cfg n rst st)) = files st \<and>
   write_log (snd (write_module_rst cfg n rst st)) = write_log st"
  by (auto simp: settled_def write_module_rst_def write_file_def Let_def
        split: option.splits if_splits)

lemma write_module_rst_keeps_settled:
  assumes "settled cfg (files st) g r" and "rst_basename n = g \<Longrightarrow> rst = r"
  shows "settled cfg (files (snd (write_module_rst cfg n rst st))) g r"
proof (cases "rst_basename n = g")
  case True
  with assms have "settled cfg (files st) (rst_basename n) rst" by simp
  from write_module_rst_settled_noop[OF this] assms(1) show ?thesis by (simp add: settled_def)
next
  case False
  with assms(1) write_module_rst_cases[of cfg n rst st] show ?thesis
    by (auto simp: settled_def)
qed

lemma replay_generated:
  "rst_files_generated (replay cfg evs st) = rst_files_generated st \<union> fst ` set (rendered evs)"
proof (induction evs arbitrary: st)
  case Nil
  show ?case by (simp add: replay_Nil)
next
  case (Cons e evs)
  show ?case
    by (cases e) (auto simp: replay_Cons Cons.IH add_items_def write_module_rst_generated)
qed

lemma replay_generated_exist:
  "rst_files_generated st \<subseteq> dom (files st) \<Longrightarrow>
   rst_files_generated (replay cfg evs st) \<subseteq> dom (files (replay cfg evs st))"
proof (induction evs arbitrary: st)
  case Nil
  then show ?case by (simp add: replay_Nil)
next
  case (Cons e evs)
  have "rst_files_generated (replay_event cfg e st) \<subseteq> dom (files (replay_event cfg e st))"
  proof (cases e)
    case (Documented D)
    with Cons.prems show ?thesis by (simp add: add_items_def)
  next
    case (Rendered n rst)
    have "rst_basename n \<in> dom (files (snd (write_module_rst cfg n rst st)))"
      by (rule write_module_rst_exists)
    moreover have "rst_files_generated st \<subseteq> dom (files (snd (write_module_rst cfg n rst st)))"
      using Cons.prems write_module_rst_dom by blast
    ultimately show ?thesis
      using Rendered by (simp add: write_module_rst_generated)
  qed
  from Cons.IH[OF this] show ?case by (simp add: replay_Cons)
qed

lemma replay_log:
  "\<exists>W. write_log (replay cfg evs st) = write_log st @ W \<and>
       set W \<subseteq> set (rendered evs) \<and>
       (\<forall>f. f \<notin> fst ` set W \<longrightarrow> files (replay cfg evs st) f = files st f)"
proof (induction evs arbitrary: st)
  case Nil
  show ?case by (simp add: replay_Nil)
next
  case (Cons e evs)
  let ?s = "replay_event cfg e st"
  from Cons.IH[of ?s] obtain W where
    W: "write_log (replay cfg evs ?s) = write_log ?s @ W" "set W \<subseteq> set (rendered evs)"
       "\<forall>f. f \<notin> fst ` set W \<longrightarrow> files (replay cfg evs ?s) f = files ?s f"
    by blast
  have "\<exists>V. write_log ?s = write_log st @ V \<and> set V \<subseteq> set (rendered [e]) \<and>
             (\<forall>f. f \<notin> fst ` set V \<longrightarrow> files ?s f = files st f)"
  proof (cases e)
    case (Documented D)
    then show ?thesis by (simp add: add_items_def)
  next
    case (Rendered n rst)
    from write_module_rst_cases[of cfg n rst st] show ?thesis
    proof
      assume "files (snd (write_module_rst cfg n rst st)) = files st \<and>
              write_log (snd (write_module_rst cfg n rst st)) = write_log st"
      with Rendered show ?thesis by simp
    next
      assume "files (snd (write_module_rst cfg n rst st)) = (files st)(rst_basename n \<mapsto> rst) \<and>
              write_log (snd (write_module_rst cfg n rst st)) =
                write_log st @ [(rst_basename n, rst)]"
      with Rendered have
        "write_log ?s = write_log st @ [(rst_basename n, rst)] \<and>
         set [(rst_basename n, rst)] \<subseteq> set (rendered [e]) \<and>
         (\<forall>f. f \<notin> fst ` set [(rst_basename n, rst)] \<longrightarrow> files ?s f = files st f)"
        by simp
      then show ?thesis by blast
    qed
  qed
  then obtain V where
    V: "write_log ?s = write_log st @ V" "set V \<subseteq> set (rendered [e])"
       "\<forall>f. f \<notin> fst ` set V \<longrightarrow> files ?s f = files st f"
    by blast
  have sub: "set (rendered [e]) \<subseteq> set (rendered (e # evs))" "set (rendered evs) \<subseteq> set (rendered (e # evs))"
    by (cases e; auto)+
  have "write_log (replay cfg (e # evs) st) = write_log st @ (V @ W) \<and>
        set (V @ W) \<subseteq> set (rendered (e # evs)) \<and>
        (\<forall>f. f \<notin> fst ` set (V @ W) \<longrightarrow> files (replay cfg (e # evs) st) f = files st f)"
    using W V sub by (auto simp: replay_Cons image_Un)
  then show ?case by blast
qed

lemma replay_items:
  "documented_items st = documented_items st' \<Longrightarrow>
   documented_items (replay cfg evs st) = documented_items (replay cfg evs st')"
proof (induction evs arbitrary: st st')
  case Nil
  then show ?case by (simp add: replay_Nil)
next
  case (Cons e evs)
  have "documented_items (replay_event cfg e st) = documented_items (replay_event cfg e st')"
    using Cons.prems by (cases e) (simp_all add: add_items_def write_module_rst_items)
  from Cons.IH[OF this] show ?case by (simp add: replay_Cons)
qed

lemma replay_keeps_settled:
  "settled cfg (files st) g r \<Longrightarrow>
   (\<forall>(f, r') \<in> set (rendered evs). f = g \<longrightarrow> r' = r) \<Longrightarrow>
   settled cfg (files (replay cfg evs st)) g r"
proof (induction evs arbitrary: st)
  case Nil
  then show ?case by (simp add: replay_Nil)
next
  case (Cons e evs)
  have "settled cfg (files (replay_event cfg e st)) g r"
  proof (cases e)
    case (Documented D)
    with Cons.prems(1) show ?thesis by (simp add: add_items_def)
  next
    case (Rendered n rst)
    with Cons.prems(2) have "rst_basename n = g \<Longrightarrow> rst = r" by simp
    from write_module_rst_keeps_settled[OF Cons.prems(1) this] Rendered show ?thesis by simp
  qed
  moreover have "\<forall>(f, r') \<in> set (rendered evs). f = g \<longrightarrow> r' = r"
    using Cons.prems(2) by (cases e) auto
  ultimately show ?case using Cons.IH by (simp add: replay_Cons)
qed

text \<open>A list of files and texts that gives each file one text only.\<close>

definition functional :: "(string \<times> string) list \<Rightarrow> bool" where
  "functional R = (\<forall>(f, r) \<in> set R. \<forall>(f', r') \<in> set R. f = f' \<longrightarrow> r = r')"

lemma replay_settles:
  "functional (rendered evs) \<Longrightarrow>
   write_log (replay cfg evs st) = write_log st @ W \<Longrightarrow>
   \<forall>(f, t) \<in> set W. universal_newlines t = t \<Longrightarrow>
   \<forall>(f, r) \<in> set (rendered evs). settled cfg (files (replay cfg evs st)) f r"
proof (induction evs arbitrary: st W)
  case Nil
  show ?case by simp
next
  case (Cons e evs)
  let ?s = "replay_event cfg e st"
  have sub: "set (rendered evs) \<subseteq> set (rendered (e # evs))" by (cases e) auto
  with Cons.prems(1) have fn: "functional (rendered evs)"
    unfolding functional_def by blast
  from replay_log[of cfg "[e]" st] obtain V where V: "write_log ?s = write_log st @ V"
    by (auto simp: replay_Cons replay_Nil)
  from replay_log[of cfg evs ?s] obtain W' where W': "write_log (replay cfg evs ?s) = write_log ?s @ W'"
    by blast
  from Cons.prems(2) V W' have W: "W = V @ W'"
    by (simp add: replay_Cons)
  with Cons.prems(3) have cleanV: "\<forall>(f, t) \<in> set V. universal_newlines t = t"
    and cleanW': "\<forall>(f, t) \<in> set W'. universal_newlines t = t"
    by auto
  from Cons.IH[OF fn W' cleanW']
  have rest: "\<forall>(f, r) \<in> set (rendered evs). settled cfg (files (replay cfg (e # evs) st)) f r"
    by (simp add: replay_Cons)
  show ?case
  proof (cases e)
    case (Documented D)
    with rest show ?thesis by simp
  next
    case (Rendered n rst)
    have "write_log (snd (write_module_rst cfg n rst st)) = write_log st \<or>
          universal_newlines rst = rst"
    proof (cases "V = []")
      case True
      with V Rendered show ?thesis by simp
    next
      case False
      from write_module_rst_cases[of cfg n rst st] V Rendered False
      have "V = [(rst_basename n, rst)]" by auto
      with cleanV show ?thesis by simp
    qed
    then have "settled cfg (files (replay_event cfg e st)) (rst_basename n) rst"
      using Rendered by (simp add: write_module_rst_settles)
    moreover have "\<forall>(f, r') \<in> set (rendered evs). f = rst_basename n \<longrightarrow> r' = rst"
      using Cons.prems(1) sub Rendered unfolding functional_def by auto
    ultimately have "settled cfg (files (replay cfg evs (replay_event cfg e st))) (rst_basename n) rst"
      by (rule replay_keeps_settled)
    with rest Rendered show ?thesis by (simp add: replay_Cons)
  qed
qed

lemma replay_settled_noop:
  "\<forall>(f, r) \<in> set (rendered evs). settled cfg (files st) f r \<Longrightarrow>
   files (replay cfg evs st) = files st \<and> write_log (replay cfg evs st) = write_log st"
proof (induction evs arbitrary: st)
  case Nil
  show ?case by (simp add: replay_Nil)
next
  case (Cons e evs)
  have step: "files (replay_event cfg e st) = files st \<and>
              write_log (replay_event cfg e st) = write_log st"
  proof (cases e)
    case (Documented D)
    then show ?thesis by (simp add: add_items_def)
  next
    case (Rendered n rst)
    with Cons.prems have "settled cfg (files st) (rst_basename n) rst" by simp
    from write_module_rst_settled_noop[OF this] Rendered show ?thesis by simp
  qed
  moreover have "\<forall>(f, r) \<in> set (rendered evs). settled cfg (files st) f r"
    using Cons.prems by (cases e) auto
  ultimately have "\<forall>(f, r) \<in> set (rendered evs). settled cfg (files (replay_event cfg e st)) f r"
    by simp
  from Cons.IH[OF this] step show ?case by (simp add: replay_Cons)
qed

lemma visited_normalize:
  "visited_module (normalize_decider cfg) m = visited_module cfg m"
  "visited_list (normalize_decider cfg) ms = visited_list cfg ms"
  by (induction cfg m and cfg ms rule: visited_module_visited_list.induct)
     (simp_all add: module_skipped_normalize)

lemma rst_basename_inj: "rst_basename n = rst_basename n' \<longleftrightarrow> n = n'"
  by (simp add: rst_basename_def)

lemma events_match_names:
  assumes "events_match cfg V evs"
  shows "fst ` set (rendered evs) = (\<lambda>x. rst_basename (mod_name x)) ` set V"
proof
  show "fst ` set (rendered evs) \<subseteq> (\<lambda>x. rst_basename (mod_name x)) ` set V"
  proof
    fix f assume "f \<in> fst ` set (rendered evs)"
    then obtain r where "(f, r) \<in> set (rendered evs)" by auto
    then obtain n where n: "f = rst_basename n" "Rendered n r \<in> set evs"
      by (auto simp: in_rendered)
    with assms obtain x where "x \<in> set V" "mod_name x = n"
      unfolding events_match_def by blast
    with n show "f \<in> (\<lambda>x. rst_basename (mod_name x)) ` set V" by auto
  qed
  show "(\<lambda>x. rst_basename (mod_name x)) ` set V \<subseteq> fst ` set (rendered evs)"
  proof
    fix f assume "f \<in> (\<lambda>x. rst_basename (mod_name x)) ` set V"
    then obtain x where x: "x \<in> set V" "f = rst_basename (mod_name x)" by auto
    with assms obtain rst where "Rendered (mod_name x) rst \<in> set evs"
      unfolding events_match_def by blast
    then have "(rst_basename (mod_name x), rst) \<in> set (rendered evs)"
      by (auto simp: in_rendered)
    with x show "f \<in> fst ` set (rendered evs)" by force
  qed
qed

lemma events_match_functional:
  assumes "events_match cfg V evs"
    and "\<forall>x \<in> set V. \<forall>y \<in> set V. mod_name x = mod_name y \<longrightarrow> x = y"
  shows "functional (rendered evs)"
  unfolding functional_def
proof (clarify)
  fix f r r' assume a: "(f, r) \<in> set (rendered evs)" "(f, r') \<in> set (rendered evs)"
  from a(1) obtain n where n: "f = rst_basename n" "Rendered n r \<in> set evs"
    by (auto simp: in_rendered)
  from a(2) obtain n' where n': "f = rst_basename n'" "Rendered n' r' \<in> set evs"
    by (auto simp: in_rendered)
  from n n' have nn: "n' = n" by (simp add: rst_basename_inj)
  from assms(1) n(2) obtain x where x: "x \<in> set V" "mod_name x = n" "own_rst cfg x = Some r"
    unfolding events_match_def by blast
  from assms(1) n'(2) nn obtain y where y: "y \<in> set V" "mod_name y = n" "own_rst cfg y = Some r'"
    unfolding events_match_def by blast
  from assms(2) x y have "x = y" by simp
  with x y show "r = r'" by simp
qed

text \<open>The end of \<^verbatim>\<open>generate\<close> after a walk that completed: the listing file written, if
  one is configured, after the stale files are removed.\<close>

definition diag_file :: "config \<Rightarrow> string option" where
  "diag_file cfg =
     (case write_documented_items_output_file cfg of
        None \<Rightarrow> None
      | Some f \<Rightarrow> if f = [] then None else Some f)"

definition diag_writes :: "config \<Rightarrow> string set \<Rightarrow> (string \<times> string) list" where
  "diag_writes cfg items =
     (case diag_file cfg of
        None \<Rightarrow> []
      | Some f \<Rightarrow> [(f, documented_items_listing items)])"

definition finish_run :: "config \<Rightarrow> session \<Rightarrow> session" where
  "finish_run cfg s =
     (case diag_file cfg of
        None \<Rightarrow> remove_stale s
      | Some f \<Rightarrow>
          write_file f (documented_items_listing (documented_items s)) (remove_stale s))"

definition walk_events :: "config \<Rightarrow> event list" where
  "walk_events cfg = snd (trace_modules (normalize_decider cfg) (modules cfg))"

definition after_walk :: "config \<Rightarrow> session \<Rightarrow> session" where
  "after_walk cfg st =
     replay (normalize_decider cfg) (walk_events cfg)
       (st\<lparr>rst_files_generated := {}, documented_items := {}\<rparr>)"

lemma generate_unfold:
  "generate cfg st =
     (if normpath (generated_source_dir cfg) = normpath ''.'' then
        (Inl (AssertionError ''Cannot use current path as generated_source_dir''), st)
      else if modules cfg = [] then (Inl (AssertionError ''no modules''), st)
      else (case fst (trace_modules (normalize_decider cfg) (modules cfg)) of
              Inl e \<Rightarrow> (Inl e, after_walk cfg st)
            | Inr u \<Rightarrow> (Inr (), finish_run cfg (after_walk cfg st))))"
  by (simp add: generate_def Let_def normalize_decider_fields visit_modules_trace
        after_walk_def walk_events_def finish_run_def diag_file_def remove_stale_def
      split: sum.splits option.splits)

lemma generate_success:
  assumes "generate cfg st = (Inr u, st')"
  shows "st' = finish_run cfg (after_walk cfg st)"
    and "\<not> isl (fst (trace_modules (normalize_decider cfg) (modules cfg)))"
    and "normpath (generated_source_dir cfg) \<noteq> normpath ''.''"
    and "modules cfg \<noteq> []"
  using assms unfolding generate_unfold by (auto split: if_splits sum.splits)

lemma finish_run_fields:
  "rst_files_generated (finish_run cfg s) = rst_files_generated s"
  "documented_items (finish_run cfg s) = documented_items s"
  "write_log (finish_run cfg s) = write_log s @ diag_writes cfg (documented_items s)"
  "files (finish_run cfg s) f =
     (if diag_file cfg = Some f then Some (documented_items_listing (documented_items s))
      else if f \<in> rst_files_generated s then files s f else None)"
  by (auto simp: finish_run_def diag_writes_def remove_stale_def write_file_def restrict_map_def
        split: option.splits)

lemma after_walk_facts:
  assumes "\<not> isl (fst (trace_modules (normalize_decider cfg) (modules cfg)))"
  shows "rst_files_generated (after_walk cfg st) =
           (\<lambda>x. rst_basename (mod_name x)) ` set (visited_list cfg (modules cfg))"
    and "rst_files_generated (after_walk cfg st) \<subseteq> dom (files (after_walk cfg st))"
    and "\<exists>W. write_log (after_walk cfg st) = write_log st @ W \<and>
             fst ` set W \<subseteq> rst_files_generated (after_walk cfg st) \<and>
             (\<forall>f. f \<notin> fst ` set W \<longrightarrow> files (after_walk cfg st) f = files st f)"
proof -
  let ?c = "normalize_decider cfg"
  let ?s = "st\<lparr>rst_files_generated := {}, documented_items := {}\<rparr>"
  from trace_modules_match[OF assms]
  have m: "events_match ?c (visited_list cfg (modules cfg)) (walk_events cfg)"
    by (simp add: walk_events_def visited_normalize)
  have g: "rst_files_generated (after_walk cfg st) = fst ` set (rendered (walk_events cfg))"
    by (simp add: after_walk_def replay_generated)
  with events_match_names[OF m]
  show "rst_files_generated (after_walk cfg st) =
           (\<lambda>x. rst_basename (mod_name x)) ` set (visited_list cfg (modules cfg))"
    by simp
  have "rst_files_generated ?s \<subseteq> dom (files ?s)" by simp
  from replay_generated_exist[OF this]
  show "rst_files_generated (after_walk cfg st) \<subseteq> dom (files (after_walk cfg st))"
    by (simp add: after_walk_def)
  from replay_log[of ?c "walk_events cfg" ?s] obtain W where
    W: "write_log (after_walk cfg st) = write_log st @ W"
       "set W \<subseteq> set (rendered (walk_events cfg))"
       "\<forall>f. f \<notin> fst ` set W \<longrightarrow> files (after_walk cfg st) f = files st f"
    by (auto simp: after_walk_def)
  from W(2) g have "fst ` set W \<subseteq> rst_files_generated (after_walk cfg st)" by auto
  with W show "\<exists>W. write_log (after_walk cfg st) = write_log st @ W \<and>
             fst ` set W \<subseteq> rst_files_generated (after_walk cfg st) \<and>
             (\<forall>f. f \<notin> fst ` set W \<longrightarrow> files (after_walk cfg st) f = files st f)"
    by blast
qed

text \<open>A generated directory left by an earlier build: \<^verbatim>\<open>old.rst\<close> for a module that no
  longer exists, and \<^verbatim>\<open>pkg.sub.rst\<close> edited by hand. A configuration that writes the
  listing of documented items, one that preserves existing files, and one whose listing
  file has the name of a module's output file.\<close>

definition example_previous_session :: session where
  "example_previous_session =
     empty_session\<lparr>files := [''old.rst'' \<mapsto> ''stale'', ''pkg.sub.rst'' \<mapsto> ''edited by hand'']\<rparr>"

definition example_listing_config :: config where
  "example_listing_config =
     (default_config [example_package])\<lparr>write_documented_items_output_file :=
        Some ''documented.txt''\<rparr>"

definition example_preserving_config :: config where
  "example_preserving_config =
     (default_config [example_package])\<lparr>overwrite_generated_source_rsts := False\<rparr>"

definition example_clash_config :: config where
  "example_clash_config =
     (default_config [example_memberless])\<lparr>write_documented_items_output_file := Some ''m.rst''\<rparr>"

lemma example_visited:
  "visited_list example_listing_config (modules example_listing_config) =
     [example_package, example_leaf]"
  "visited_list example_preserving_config (modules example_preserving_config) =
     [example_package, example_leaf]"
  by code_simp+

section \<open>Stale files\<close>

text \<open>
  C5. After a run that completes, a file is in the generated directory exactly when the run
  registered it in \<open>rst_files_generated\<close> or wrote it (the listing of documented items is
  written without being registered). In particular a file that was there before the run
  and was neither registered nor written by it is gone.
\<close>

theorem stale_files_removed:
  assumes "generate cfg st = (Inr u, st')"
  shows "f \<in> dom (files st') \<longleftrightarrow>
           f \<in> rst_files_generated st' \<or>
           f \<in> fst ` set (drop (length (write_log st)) (write_log st'))"
proof -
  note g = generate_success[OF assms]
  note w = after_walk_facts[OF g(2), of st]
  from w(3) obtain W where
    W: "write_log (after_walk cfg st) = write_log st @ W"
       "fst ` set W \<subseteq> rst_files_generated (after_walk cfg st)"
    by blast
  have log: "drop (length (write_log st)) (write_log st') =
               W @ diag_writes cfg (documented_items (after_walk cfg st))"
    by (simp add: g(1) finish_run_fields W(1))
  have names: "fst ` set (diag_writes cfg items) = {f. diag_file cfg = Some f}" for items
    by (auto simp: diag_writes_def split: option.splits)
  have "f \<in> dom (files st') \<longleftrightarrow>
          diag_file cfg = Some f \<or> f \<in> rst_files_generated (after_walk cfg st)"
    using w(2) by (auto simp: g(1) finish_run_fields dom_def split: if_splits)
  also have "\<dots> \<longleftrightarrow> f \<in> rst_files_generated st' \<or>
           f \<in> fst ` set (drop (length (write_log st)) (write_log st'))"
  proof -
    have G: "rst_files_generated st' = rst_files_generated (after_walk cfg st)"
      by (simp add: g(1) finish_run_fields)
    show ?thesis using W(2) by (auto simp: log names image_Un G)
  qed
  finally show ?thesis .
qed

theorem stale_files_removed_witness:
  "generate (default_config [example_package]) example_previous_session =
     (Inr (), snd (generate (default_config [example_package]) example_previous_session)) \<and>
   files example_previous_session ''old.rst'' = Some ''stale'' \<and>
   ''old.rst'' \<notin>
     rst_files_generated
       (snd (generate (default_config [example_package]) example_previous_session)) \<and>
   ''old.rst'' \<notin>
     fst ` set (drop (length (write_log example_previous_session))
                  (write_log (snd (generate (default_config [example_package])
                                     example_previous_session)))) \<and>
   ''old.rst'' \<notin>
     dom (files (snd (generate (default_config [example_package]) example_previous_session))) \<and>
   ''pkg.sub.rst'' \<in>
     rst_files_generated
       (snd (generate (default_config [example_package]) example_previous_session)) \<and>
   ''pkg.sub.rst'' \<in>
     dom (files (snd (generate (default_config [example_package]) example_previous_session)))"
proof -
  have f: "fst (generate (default_config [example_package]) example_previous_session) = Inr ()"
    by code_simp
  then have h1: "generate (default_config [example_package]) example_previous_session =
     (Inr (), snd (generate (default_config [example_package]) example_previous_session))"
    by (simp add: prod_eq_iff)
  have e: "files example_previous_session ''old.rst'' = Some ''stale''"
    by (simp add: example_previous_session_def)
  have a: "''old.rst'' \<notin>
     rst_files_generated
       (snd (generate (default_config [example_package]) example_previous_session))"
    by code_simp
  have b: "''old.rst'' \<notin>
     fst ` set (drop (length (write_log example_previous_session))
                  (write_log (snd (generate (default_config [example_package])
                                     example_previous_session))))"
    by code_simp
  have c: "''pkg.sub.rst'' \<in>
     rst_files_generated
       (snd (generate (default_config [example_package]) example_previous_session))"
    by code_simp
  note t = stale_files_removed[OF h1]
  from t[of "''old.rst''"] a b have r1: "''old.rst'' \<notin>
     dom (files (snd (generate (default_config [example_package]) example_previous_session)))"
    by blast
  from t[of "''pkg.sub.rst''"] c have r2: "''pkg.sub.rst'' \<in>
     dom (files (snd (generate (default_config [example_package]) example_previous_session)))"
    by blast
  from h1 e a b c r1 r2 show ?thesis by blast
qed

section \<open>Registered files survive the cleanup\<close>

text \<open>
  C9. After a run that completes, the output file of every module the walk reached and did
  not skip is registered in \<open>rst_files_generated\<close> and is in the generated directory; and
  when the run did not write it (its content was already the rendered text, or existing
  files are preserved), it is there with the content it had before the run.
\<close>

theorem registered_file_survives_cleanup:
  assumes "generate cfg st = (Inr u, st')"
    and "m \<in> set (visited_list cfg (modules cfg))"
  shows "rst_basename (mod_name m) \<in> rst_files_generated st' \<and>
         rst_basename (mod_name m) \<in> dom (files st') \<and>
         (rst_basename (mod_name m) \<notin> fst ` set (drop (length (write_log st)) (write_log st'))
            \<longrightarrow> files st' (rst_basename (mod_name m)) = files st (rst_basename (mod_name m)))"
proof -
  let ?f = "rst_basename (mod_name m)"
  note g = generate_success[OF assms(1)]
  note w = after_walk_facts[OF g(2), of st]
  from w(1) assms(2) have reg: "?f \<in> rst_files_generated (after_walk cfg st)" by auto
  with w(2) have ex: "?f \<in> dom (files (after_walk cfg st))" by auto
  from w(3) obtain W where
    W: "write_log (after_walk cfg st) = write_log st @ W"
       "\<forall>f. f \<notin> fst ` set W \<longrightarrow> files (after_walk cfg st) f = files st f"
    by blast
  have log: "drop (length (write_log st)) (write_log st') =
               W @ diag_writes cfg (documented_items (after_walk cfg st))"
    by (simp add: g(1) finish_run_fields W(1))
  have names: "fst ` set (diag_writes cfg items) = {f. diag_file cfg = Some f}" for items
    by (auto simp: diag_writes_def split: option.splits)
  have 1: "?f \<in> rst_files_generated st'" using reg by (simp add: g(1) finish_run_fields)
  have 2: "?f \<in> dom (files st')"
    using reg ex by (auto simp: g(1) finish_run_fields dom_def)
  have 3: "files st' ?f = files st ?f"
    if "?f \<notin> fst ` set (drop (length (write_log st)) (write_log st'))"
  proof -
    from that have a: "?f \<notin> fst ` set W" and b: "diag_file cfg \<noteq> Some ?f"
      by (auto simp: log names image_Un)
    from a W(2) have "files (after_walk cfg st) ?f = files st ?f" by blast
    with b reg show ?thesis by (simp add: g(1) finish_run_fields)
  qed
  from 1 2 3 show ?thesis by blast
qed

theorem registered_file_survives_cleanup_witness:
  "generate example_preserving_config example_previous_session =
     (Inr (), snd (generate example_preserving_config example_previous_session)) \<and>
   example_leaf \<in>
     set (visited_list example_preserving_config (modules example_preserving_config)) \<and>
   rst_basename (mod_name example_leaf) = ''pkg.sub.rst'' \<and>
   ''pkg.sub.rst'' \<notin>
     fst ` set (drop (length (write_log example_previous_session))
                  (write_log (snd (generate example_preserving_config
                                     example_previous_session)))) \<and>
   ''pkg.sub.rst'' \<in>
     rst_files_generated (snd (generate example_preserving_config example_previous_session)) \<and>
   ''pkg.sub.rst'' \<in>
     dom (files (snd (generate example_preserving_config example_previous_session))) \<and>
   files (snd (generate example_preserving_config example_previous_session)) ''pkg.sub.rst'' =
     Some ''edited by hand''"
proof -
  have f: "fst (generate example_preserving_config example_previous_session) = Inr ()"
    by code_simp
  then have h1: "generate example_preserving_config example_previous_session =
     (Inr (), snd (generate example_preserving_config example_previous_session))"
    by (simp add: prod_eq_iff)
  have h2: "example_leaf \<in>
     set (visited_list example_preserving_config (modules example_preserving_config))"
    unfolding example_visited by simp
  have n: "rst_basename (mod_name example_leaf) = ''pkg.sub.rst''"
    by (simp add: rst_basename_def example_leaf_def)
  have b: "''pkg.sub.rst'' \<notin>
     fst ` set (drop (length (write_log example_previous_session))
                  (write_log (snd (generate example_preserving_config
                                     example_previous_session))))"
    by code_simp
  have e: "files example_previous_session ''pkg.sub.rst'' = Some ''edited by hand''"
    by (simp add: example_previous_session_def)
  from registered_file_survives_cleanup[OF h1 h2] b e
  have c: "''pkg.sub.rst'' \<in>
     rst_files_generated (snd (generate example_preserving_config example_previous_session)) \<and>
   ''pkg.sub.rst'' \<in>
     dom (files (snd (generate example_preserving_config example_previous_session))) \<and>
   files (snd (generate example_preserving_config example_previous_session)) ''pkg.sub.rst'' =
     Some ''edited by hand''"
    by (simp add: n)
  from h1 h2 n b c show ?thesis by blast
qed

section \<open>Running generation twice\<close>

text \<open>A plain file name names an entry of the directory it is joined to: it is not empty,
  has no slash and no null character, and is neither \<^verbatim>\<open>.\<close> nor \<^verbatim>\<open>..\<close>.\<close>

definition plain_file_name :: "string \<Rightarrow> bool" where
  "plain_file_name f =
     (f \<noteq> [] \<and> CHR ''/'' \<notin> set f \<and> CHR 0x00 \<notin> set f \<and> f \<noteq> ''.'' \<and> f \<noteq> ''..'')"

text \<open>
  C4, as amended. Let a run complete, on a configuration where no two different modules
  reached by the walk have the same name and where the listing file, if one is configured,
  is a plain file name that is not the name of a reached module's output file, and let no
  text that the run wrote hold a carriage return. Then a second run on the resulting
  session completes, leaves every file of the generated directory as it is, and writes no
  module's file: the only write is that of the listing file, when configured.
\<close>

theorem second_run_writes_nothing:
  assumes "generate cfg st = (Inr u, st1)"
    and "inj_on mod_name (set (visited_list cfg (modules cfg)))"
    and "case write_documented_items_output_file cfg of
           None \<Rightarrow> True
         | Some f \<Rightarrow>
             f = [] \<or>
             (plain_file_name f \<and>
              f \<notin> (\<lambda>x. rst_basename (mod_name x)) ` set (visited_list cfg (modules cfg)))"
    and "\<forall>(f, t) \<in> set (drop (length (write_log st)) (write_log st1)). CHR 0x0D \<notin> set t"
  shows "fst (generate cfg st1) = Inr u \<and>
         files (snd (generate cfg st1)) = files st1 \<and>
         write_log (snd (generate cfg st1)) =
           write_log st1 @
           (case write_documented_items_output_file cfg of
              None \<Rightarrow> []
            | Some f \<Rightarrow>
                if f = [] then [] else [(f, documented_items_listing (documented_items st1))])"
proof -
  let ?c = "normalize_decider cfg"
  let ?evs = "walk_events cfg"
  let ?V = "visited_list cfg (modules cfg)"
  let ?s0 = "st\<lparr>rst_files_generated := {}, documented_items := {}\<rparr>"
  let ?sW = "after_walk cfg st"
  let ?sW2 = "after_walk cfg st1"
  note g = generate_success[OF assms(1)]
  from trace_modules_match[OF g(2)]
  have m: "events_match ?c ?V ?evs"
    by (simp add: walk_events_def visited_normalize)
  from assms(2) have inj: "\<forall>x \<in> set ?V. \<forall>y \<in> set ?V. mod_name x = mod_name y \<longrightarrow> x = y"
    by (auto dest: inj_onD)
  from events_match_functional[OF m inj] have fn: "functional (rendered ?evs)" .
  note names = events_match_names[OF m]
  have GW: "rst_files_generated ?sW = fst ` set (rendered ?evs)"
    by (simp add: after_walk_def replay_generated)
  have GW2: "rst_files_generated ?sW2 = fst ` set (rendered ?evs)"
    by (simp add: after_walk_def replay_generated)
  have nodiag: "diag_file cfg \<noteq> Some f" if "f \<in> fst ` set (rendered ?evs)" for f
  proof -
    from that names obtain x where "x \<in> set ?V" "f = rst_basename (mod_name x)" by auto
    with assms(3) show ?thesis
      by (auto simp: diag_file_def image_iff split: option.splits if_splits)
  qed
  from replay_log[of ?c ?evs ?s0] obtain W where
    W: "write_log (replay ?c ?evs ?s0) = write_log ?s0 @ W"
    by blast
  then have W': "write_log ?sW = write_log st @ W"
    by (simp add: after_walk_def)
  have "drop (length (write_log st)) (write_log st1) =
          W @ diag_writes cfg (documented_items ?sW)"
    by (simp add: g(1) finish_run_fields W')
  with assms(4) have "\<forall>(f, t) \<in> set W. CHR 0x0D \<notin> set t" by auto
  then have clean: "\<forall>(f, t) \<in> set W. universal_newlines t = t"
    by (auto intro: universal_newlines_clean)
  have settledW: "\<forall>(f, r) \<in> set (rendered ?evs). settled ?c (files ?sW) f r"
    unfolding after_walk_def by (rule replay_settles[OF fn W clean])
  have same: "files st1 f = files ?sW f" if "f \<in> fst ` set (rendered ?evs)" for f
    using that nodiag[OF that] by (simp add: g(1) finish_run_fields GW)
  have settled1: "\<forall>(f, r) \<in> set (rendered ?evs).
                    settled ?c (files (st1\<lparr>rst_files_generated := {}, documented_items := {}\<rparr>)) f r"
  proof (clarify)
    fix f r assume fr: "(f, r) \<in> set (rendered ?evs)"
    then have "f \<in> fst ` set (rendered ?evs)" by force
    from same[OF this] settledW fr show
      "settled ?c (files (st1\<lparr>rst_files_generated := {}, documented_items := {}\<rparr>)) f r"
      by (auto simp: settled_def dom_def)
  qed
  from replay_settled_noop[OF settled1]
  have noop: "files ?sW2 = files st1" "write_log ?sW2 = write_log st1"
    by (simp_all add: after_walk_def)
  have items: "documented_items ?sW2 = documented_items ?sW"
    unfolding after_walk_def by (rule replay_items) simp
  have items1: "documented_items st1 = documented_items ?sW"
    by (simp add: g(1) finish_run_fields)
  have gen2: "generate cfg st1 = (Inr (), finish_run cfg ?sW2)"
    using g(2,3,4) unfolding generate_unfold[of cfg st1]
    by (cases "fst (trace_modules (normalize_decider cfg) (modules cfg))") simp_all
  have files2: "files (finish_run cfg ?sW2) = files st1"
  proof
    fix f
    show "files (finish_run cfg ?sW2) f = files st1 f"
    proof (cases "f \<in> fst ` set (rendered ?evs)")
      case True
      from nodiag[OF True] True same[OF True] show ?thesis
        by (simp add: finish_run_fields GW2 noop)
    next
      case False
      have "files st1 f =
              (if diag_file cfg = Some f
               then Some (documented_items_listing (documented_items ?sW)) else None)"
        using False by (simp add: g(1) finish_run_fields GW)
      with False show ?thesis
        by (simp add: finish_run_fields GW2 items)
    qed
  qed
  have log2: "write_log (finish_run cfg ?sW2) =
                write_log st1 @ diag_writes cfg (documented_items st1)"
    by (simp add: finish_run_fields noop items items1)
  have dw: "diag_writes cfg (documented_items st1) =
          (case write_documented_items_output_file cfg of
              None \<Rightarrow> []
            | Some f \<Rightarrow>
                if f = [] then [] else [(f, documented_items_listing (documented_items st1))])"
    by (simp add: diag_writes_def diag_file_def split: option.splits)
  from gen2 files2 log2 dw show ?thesis by simp
qed

theorem second_run_writes_nothing_witness:
  "generate example_listing_config example_previous_session =
     (Inr (), snd (generate example_listing_config example_previous_session)) \<and>
   distinct (map mod_name (visited_list example_listing_config (modules example_listing_config))) \<and>
   write_documented_items_output_file example_listing_config = Some ''documented.txt'' \<and>
   plain_file_name ''documented.txt'' \<and>
   ''documented.txt'' \<notin>
     (\<lambda>x. rst_basename (mod_name x)) `
       set (visited_list example_listing_config (modules example_listing_config)) \<and>
   list_all (\<lambda>(f, t). CHR 0x0D \<notin> set t)
     (drop (length (write_log example_previous_session))
        (write_log (snd (generate example_listing_config example_previous_session)))) \<and>
   fst (generate example_listing_config
          (snd (generate example_listing_config example_previous_session))) = Inr () \<and>
   files (snd (generate example_listing_config
                 (snd (generate example_listing_config example_previous_session)))) =
     files (snd (generate example_listing_config example_previous_session)) \<and>
   write_log (snd (generate example_listing_config
                     (snd (generate example_listing_config example_previous_session)))) =
     write_log (snd (generate example_listing_config example_previous_session)) @
     [(''documented.txt'',
       documented_items_listing
         (documented_items (snd (generate example_listing_config example_previous_session))))]"
proof -
  have f: "fst (generate example_listing_config example_previous_session) = Inr ()"
    by code_simp
  then have h1: "generate example_listing_config example_previous_session =
     (Inr (), snd (generate example_listing_config example_previous_session))"
    by (simp add: prod_eq_iff)
  have d: "distinct (map mod_name
             (visited_list example_listing_config (modules example_listing_config)))"
    unfolding example_visited by code_simp
  then have h2: "inj_on mod_name
             (set (visited_list example_listing_config (modules example_listing_config)))"
    by (simp add: distinct_map)
  have w: "write_documented_items_output_file example_listing_config = Some ''documented.txt''"
    by (simp add: example_listing_config_def)
  have p: "plain_file_name ''documented.txt''"
    by (simp add: plain_file_name_def)
  have n: "''documented.txt'' \<notin>
     (\<lambda>x. rst_basename (mod_name x)) `
       set (visited_list example_listing_config (modules example_listing_config))"
    unfolding example_visited by code_simp
  from w p n have h3: "case write_documented_items_output_file example_listing_config of
           None \<Rightarrow> True
         | Some f \<Rightarrow>
             f = [] \<or>
             (plain_file_name f \<and>
              f \<notin> (\<lambda>x. rst_basename (mod_name x)) `
                    set (visited_list example_listing_config (modules example_listing_config)))"
    by simp
  have l: "list_all (\<lambda>(f, t). CHR 0x0D \<notin> set t)
     (drop (length (write_log example_previous_session))
        (write_log (snd (generate example_listing_config example_previous_session))))"
    by code_simp
  then have h4: "\<forall>(f, t) \<in> set (drop (length (write_log example_previous_session))
        (write_log (snd (generate example_listing_config example_previous_session)))).
          CHR 0x0D \<notin> set t"
    by (simp only: list_all_iff)
  from second_run_writes_nothing[OF h1 h2 h3 h4]
  have c: "fst (generate example_listing_config
          (snd (generate example_listing_config example_previous_session))) = Inr () \<and>
   files (snd (generate example_listing_config
                 (snd (generate example_listing_config example_previous_session)))) =
     files (snd (generate example_listing_config example_previous_session)) \<and>
   write_log (snd (generate example_listing_config
                     (snd (generate example_listing_config example_previous_session)))) =
     write_log (snd (generate example_listing_config example_previous_session)) @
     [(''documented.txt'',
       documented_items_listing
         (documented_items (snd (generate example_listing_config example_previous_session))))]"
    by (simp add: w)
  from h1 d w p n l c show ?thesis by blast
qed

text \<open>
  C4 as stated fails when the listing of documented items is written under the name of a
  module's output file: the first run ends by replacing \<^verbatim>\<open>m.rst\<close> with the listing, so
  the second run finds a content that differs from the rendered text and writes the
  module's file again. It fails as well when the rendered text holds a carriage return:
  the second run reads the file of the first with a line feed in its place and writes the
  module's file again.
\<close>

theorem second_run_rewrites_counterexample:
  "fst (generate example_clash_config empty_session) = Inr () \<and>
   fst (generate example_clash_config (snd (generate example_clash_config empty_session))) =
     Inr () \<and>
   write_log (snd (generate example_clash_config
                     (snd (generate example_clash_config empty_session)))) =
     write_log (snd (generate example_clash_config empty_session)) @
     [(''m.rst'', module_header example_clash_config ''m''),
      (''m.rst'', ''m (module)'' @ nl)] \<and>
   fst (generate example_cr_config empty_session) = Inr () \<and>
   fst (generate example_cr_config example_cr_session) = Inr () \<and>
   write_log (snd (generate example_cr_config example_cr_session)) =
     write_log example_cr_session @ [(''m.rst'', module_header example_cr_config ''m'')]"
  by code_simp

end
